theory Spec2Isabelle
  imports Complex_Main
begin

section \<open>Direct multiple shooting: the tutorial script \<open>modelica_ms.py\<close>\<close>

text \<open>
  The script builds symbolic CasADi expressions.  A symbolic expression denotes a function
  from the values of its symbols to a real vector, so an expression of static size \<open>n\<close> is
  embedded as that size together with its value under an environment.  Column vectors are
  lists of reals: the arithmetic is that of the expressions, not the rounded arithmetic of a
  numeric evaluation.  The script's constants \<open>tf\<close>, \<open>nk\<close> and \<open>nj\<close> and the imported model
  are parameters.  Python exceptions are values of type \<open>error\<close>.
\<close>

subsection \<open>Python and CasADi primitives\<close>

type_synonym vec = "real list"

datatype error = ZeroDivisionError | IndexError

text \<open>\<open>range(n)\<close>: the counters \<open>0, ..., n-1\<close> (none when \<open>n \<le> 0\<close>), kept as naturals.\<close>

definition py_range :: "int \<Rightarrow> nat list" where
  "py_range n = [0..<nat n]"

text \<open>\<open>xs[i]\<close> on a Python list; a negative index counts from the end.\<close>

definition py_index :: "'a list \<Rightarrow> int \<Rightarrow> error + 'a" where
  "py_index xs i =
     (if 0 \<le> i \<and> i < int (length xs) then Inr (xs ! nat i)
      else if i < 0 \<and> - int (length xs) \<le> i then Inr (xs ! nat (int (length xs) + i))
      else Inl IndexError)"

text \<open>A list comprehension \<open>[g(k) for k in ks]\<close> whose element expression may raise.\<close>

fun comprehension :: "('a \<Rightarrow> error + 'b) \<Rightarrow> 'a list \<Rightarrow> error + 'b list" where
  "comprehension g [] = Inr []"
| "comprehension g (k # ks) =
     (case g k of Inl e \<Rightarrow> Inl e
      | Inr y \<Rightarrow> (case comprehension g ks of Inl e \<Rightarrow> Inl e | Inr ys \<Rightarrow> Inr (y # ys)))"

text \<open>
  Elementwise arithmetic of column vectors, and scalar times vector.  CasADi refuses operands
  of different sizes; under the shape invariant of the model (\<open>wf_model\<close> below) the
  operands of every sum and difference in the script have the same size, and only there do
  \<open>vadd\<close> and \<open>vsub\<close> stand for the code.
\<close>

definition vadd :: "vec \<Rightarrow> vec \<Rightarrow> vec" where
  "vadd a b = map2 (+) a b"

definition vsub :: "vec \<Rightarrow> vec \<Rightarrow> vec" where
  "vsub a b = map2 (-) a b"

definition smul :: "real \<Rightarrow> vec \<Rightarrow> vec" where
  "smul c a = map ((*) c) a"

subsection \<open>The imported model (lines 49-73)\<close>

text \<open>
  The model comes from \<open>modelDescription.xml\<close>, which is not part of the sources, so it is a
  parameter: the sizes \<open>nx = x.size1()\<close>, \<open>nu = u.size1()\<close> and \<open>I.size1()\<close>, the right-hand
  side \<open>f\<close>, the cost rate \<open>L\<close>, the initial-condition residual \<open>I\<close>, and the bounds and
  initial guesses.
\<close>

record model =
  nx :: nat
  nu :: nat
  size_I :: nat
  ode_f :: "vec \<Rightarrow> vec \<Rightarrow> vec"
  quad_L :: "vec \<Rightarrow> vec \<Rightarrow> real"
  init_I :: "vec \<Rightarrow> vec"
  lbx :: vec
  ubx :: vec
  lbu :: vec
  ubu :: vec
  x0 :: vec
  u0 :: vec

text \<open>The shape invariant of the model: everything tied to \<open>x\<close> has \<open>nx\<close> entries, everything
  tied to \<open>u\<close> has \<open>nu\<close> entries.\<close>

definition wf_model :: "model \<Rightarrow> bool" where
  "wf_model m \<longleftrightarrow>
     length (lbx m) = nx m \<and> length (ubx m) = nx m \<and> length (x0 m) = nx m \<and>
     length (lbu m) = nu m \<and> length (ubu m) = nu m \<and> length (u0 m) = nu m \<and>
     (\<forall>x u. length x = nx m \<and> length u = nu m \<longrightarrow> length (ode_f m x u) = nx m) \<and>
     (\<forall>x. length x = nx m \<longrightarrow> length (init_I m x) = size_I m)"

text \<open>\<open>ode_fcn = MXFunction([x,u],[f,L])\<close> (line 91).\<close>

definition ode_fcn :: "(vec \<Rightarrow> vec \<Rightarrow> vec) \<Rightarrow> (vec \<Rightarrow> vec \<Rightarrow> real) \<Rightarrow> vec \<Rightarrow> vec \<Rightarrow> vec \<times> real" where
  "ode_fcn f L x u = (f x u, L x u)"

subsection \<open>Step sizes (lines 106-107 and 138)\<close>

text \<open>\<open>dt = tf/nk\<close> and \<open>h = dt/nj\<close> are float divisions: a zero divisor raises.\<close>

definition step_sizes :: "real \<Rightarrow> int \<Rightarrow> int \<Rightarrow> error + real \<times> real" where
  "step_sizes tf nk nj =
     (if nk = 0 then Inl ZeroDivisionError
      else let dt = tf / of_int nk
           in if nj = 0 then Inl ZeroDivisionError else Inr (dt, dt / of_int nj))"

subsection \<open>The integrator (lines 139-151)\<close>

text \<open>One pass of the loop body, lines 143-148, on the pair \<open>(xkj, xkj_L)\<close>.\<close>

definition rk4_body :: "(vec \<Rightarrow> vec \<Rightarrow> vec \<times> real) \<Rightarrow> real \<Rightarrow> vec \<Rightarrow> vec \<times> real \<Rightarrow> vec \<times> real" where
  "rk4_body ode h uk s =
     (let xkj = fst s; xkj_L = snd s;
          (k1, k1_L) = ode xkj uk;
          (k2, k2_L) = ode (vadd xkj (smul (h / 2) k1)) uk;
          (k3, k3_L) = ode (vadd xkj (smul (h / 2) k2)) uk;
          (k4, k4_L) = ode (vadd xkj (smul h k3)) uk
      in (vadd xkj (smul (h / 6) (vadd (vadd (vadd k1 (smul 2 k2)) (smul 2 k3)) k4)),
          xkj_L + h / 6 * (k1_L + 2 * k2_L + 2 * k3_L + k4_L)))"

text \<open>\<open>for j in range(nj)\<close>: the body does not read \<open>j\<close>.\<close>

fun rk4_loop :: "(vec \<Rightarrow> vec \<Rightarrow> vec \<times> real) \<Rightarrow> real \<Rightarrow> vec \<Rightarrow> nat list \<Rightarrow> vec \<times> real \<Rightarrow> vec \<times> real" where
  "rk4_loop ode h uk [] s = s"
| "rk4_loop ode h uk (j # js) s = rk4_loop ode h uk js (rk4_body ode h uk s)"

text \<open>\<open>integrator = MXFunction([xk,uk],[xkj,xkj_L])\<close> with \<open>xkj = xk; xkj_L = 0\<close> at the start.\<close>

definition integrator :: "(vec \<Rightarrow> vec \<Rightarrow> vec \<times> real) \<Rightarrow> real \<Rightarrow> int \<Rightarrow> vec \<Rightarrow> vec \<Rightarrow> vec \<times> real" where
  "integrator ode h nj xk uk = rk4_loop ode h uk (py_range nj) (xk, 0)"

subsection \<open>The recursion of the specification, in its own words\<close>

definition rk4_step_spec :: "(vec \<Rightarrow> vec \<Rightarrow> vec) \<Rightarrow> (vec \<Rightarrow> vec \<Rightarrow> real) \<Rightarrow> real \<Rightarrow> vec \<Rightarrow> vec \<times> real \<Rightarrow> vec \<times> real" where
  "rk4_step_spec f L h u s =
     (let x_j = fst s; L_j = snd s;
          k1 = f x_j u;                           k1_L = L x_j u;
          k2 = f (vadd x_j (smul (h / 2) k1)) u;  k2_L = L (vadd x_j (smul (h / 2) k1)) u;
          k3 = f (vadd x_j (smul (h / 2) k2)) u;  k3_L = L (vadd x_j (smul (h / 2) k2)) u;
          k4 = f (vadd x_j (smul h k3)) u;        k4_L = L (vadd x_j (smul h k3)) u
      in (vadd x_j (smul (h / 6) (vadd (vadd (vadd k1 (smul 2 k2)) (smul 2 k3)) k4)),
          L_j + h / 6 * (k1_L + 2 * k2_L + 2 * k3_L + k4_L)))"

fun rk4_seq_spec :: "(vec \<Rightarrow> vec \<Rightarrow> vec) \<Rightarrow> (vec \<Rightarrow> vec \<Rightarrow> real) \<Rightarrow> real \<Rightarrow> vec \<Rightarrow> vec \<Rightarrow> nat \<Rightarrow> vec \<times> real" where
  "rk4_seq_spec f L h u x_start 0 = (x_start, 0)"
| "rk4_seq_spec f L h u x_start (Suc j) = rk4_step_spec f L h u (rk4_seq_spec f L h u x_start j)"

subsection \<open>Symbolic expressions\<close>

text \<open>
  The symbols of the decision vector: \<open>MX.sym("x" + str(k), nx)\<close> and
  \<open>MX.sym("u" + str(k), nu)\<close> (lines 167-168), each with its size.  An environment gives
  every symbol its value.
\<close>

datatype sym = SymX nat | SymU nat

type_synonym symv = "sym \<times> nat"

type_synonym env = "sym \<Rightarrow> vec"

record mx =
  size1 :: nat
  mx_val :: "env \<Rightarrow> vec"

definition sym_mx :: "symv \<Rightarrow> mx" where
  "sym_mx s = \<lparr>size1 = snd s, mx_val = (\<lambda>env. env (fst s))\<rparr>"

text \<open>\<open>init_fcn([a])\<close>, with \<open>init_fcn = MXFunction([x],[I])\<close> (line 95).\<close>

definition call_init :: "model \<Rightarrow> mx \<Rightarrow> mx" where
  "call_init m a = \<lparr>size1 = size_I m, mx_val = (\<lambda>env. init_I m (mx_val a env))\<rparr>"

text \<open>\<open>integrator([a, b])\<close>: the state output has the size of \<open>xkj\<close>, the cost output is a
  scalar.\<close>

definition call_integrator :: "nat \<Rightarrow> (vec \<Rightarrow> vec \<Rightarrow> vec \<times> real) \<Rightarrow> mx \<Rightarrow> mx \<Rightarrow> mx \<times> (env \<Rightarrow> real)" where
  "call_integrator n integ a b =
     (\<lparr>size1 = n, mx_val = (\<lambda>env. fst (integ (mx_val a env) (mx_val b env)))\<rparr>,
      (\<lambda>env. snd (integ (mx_val a env) (mx_val b env))))"

definition mx_sub :: "mx \<Rightarrow> mx \<Rightarrow> mx" where
  "mx_sub a b = \<lparr>size1 = size1 a, mx_val = (\<lambda>env. vsub (mx_val a env) (mx_val b env))\<rparr>"

definition vertcat :: "mx list \<Rightarrow> mx" where
  "vertcat es = \<lparr>size1 = sum_list (map size1 es),
                 mx_val = (\<lambda>env. concat (map (\<lambda>e. mx_val e env) es))\<rparr>"

subsection \<open>Layout of the decision vector (lines 170-187)\<close>

text \<open>The lists the script grows: \<open>v\<close>, \<open>lbv\<close>, \<open>ubv\<close>, \<open>v0\<close> (still lists of blocks), the
  running length \<open>nv\<close> and the index map \<open>vind\<close>.\<close>

record layout =
  lay_v :: "symv list"
  lay_lbv :: "vec list"
  lay_ubv :: "vec list"
  lay_v0 :: "vec list"
  lay_nv :: nat
  lay_vind_x :: "nat list list"
  lay_vind_u :: "nat list list"

definition valloc :: "nat \<Rightarrow> nat \<Rightarrow> nat list \<times> nat" where
  "valloc n N = ([N..<N + n], N + n)"

definition layout_init :: layout where
  "layout_init = \<lparr>lay_v = [], lay_lbv = [], lay_ubv = [], lay_v0 = [], lay_nv = 0,
                   lay_vind_x = [], lay_vind_u = []\<rparr>"

text \<open>Lines 178-179 and 184-185: allocate a state block and append to every list.\<close>

definition alloc_x :: "model \<Rightarrow> symv \<Rightarrow> layout \<Rightarrow> layout" where
  "alloc_x m xkk s =
     (let (ind, N) = valloc (nx m) (lay_nv s)
      in s\<lparr>lay_nv := N, lay_v := lay_v s @ [xkk], lay_lbv := lay_lbv s @ [lbx m],
            lay_ubv := lay_ubv s @ [ubx m], lay_v0 := lay_v0 s @ [x0 m],
            lay_vind_x := lay_vind_x s @ [ind]\<rparr>)"

text \<open>Lines 181-182: allocate a control block.\<close>

definition alloc_u :: "model \<Rightarrow> symv \<Rightarrow> layout \<Rightarrow> layout" where
  "alloc_u m ukk s =
     (let (ind, N) = valloc (nu m) (lay_nv s)
      in s\<lparr>lay_nv := N, lay_v := lay_v s @ [ukk], lay_lbv := lay_lbv s @ [lbu m],
            lay_ubv := lay_ubv s @ [ubu m], lay_v0 := lay_v0 s @ [u0 m],
            lay_vind_u := lay_vind_u s @ [ind]\<rparr>)"

definition layout_body :: "model \<Rightarrow> symv list \<Rightarrow> symv list \<Rightarrow> nat \<Rightarrow> layout \<Rightarrow> error + layout" where
  "layout_body m xk uk k s =
     (case py_index xk (int k) of Inl e \<Rightarrow> Inl e
      | Inr xkk \<Rightarrow>
          (case py_index uk (int k) of Inl e \<Rightarrow> Inl e
           | Inr ukk \<Rightarrow> Inr (alloc_u m ukk (alloc_x m xkk s))))"

fun layout_loop :: "model \<Rightarrow> symv list \<Rightarrow> symv list \<Rightarrow> nat list \<Rightarrow> layout \<Rightarrow> error + layout" where
  "layout_loop m xk uk [] s = Inr s"
| "layout_loop m xk uk (k # ks) s =
     (case layout_body m xk uk k s of Inl e \<Rightarrow> Inl e
      | Inr s' \<Rightarrow> layout_loop m xk uk ks s')"

text \<open>The loop of lines 176-182, then the state at the end, \<open>xk[-1]\<close>.\<close>

definition layout_all :: "model \<Rightarrow> symv list \<Rightarrow> symv list \<Rightarrow> int \<Rightarrow> error + layout" where
  "layout_all m xk uk nk =
     (case layout_loop m xk uk (py_range nk) layout_init of Inl e \<Rightarrow> Inl e
      | Inr s \<Rightarrow>
          (case py_index xk (- 1) of Inl e \<Rightarrow> Inl e
           | Inr xl \<Rightarrow> Inr (alloc_x m xl s)))"

subsection \<open>Objective and constraints (lines 190-200)\<close>

record acc =
  acc_J :: "env \<Rightarrow> real"
  acc_eq :: "mx list"

definition shoot_body ::
  "model \<Rightarrow> (vec \<Rightarrow> vec \<Rightarrow> vec \<times> real) \<Rightarrow> symv list \<Rightarrow> symv list \<Rightarrow> int \<Rightarrow> nat \<Rightarrow> acc \<Rightarrow> error + acc" where
  "shoot_body m integ xk uk nk k a =
     (case py_index xk (int k) of Inl e \<Rightarrow> Inl e
      | Inr xkk \<Rightarrow>
          (case py_index uk (int k) of Inl e \<Rightarrow> Inl e
           | Inr ukk \<Rightarrow>
               (let (xk_end, Jk) = call_integrator (nx m) integ (sym_mx xkk) (sym_mx ukk);
                    J = (\<lambda>env. acc_J a env + Jk env)
                in if int k + 1 < nk
                   then (case py_index xk (int k + 1) of Inl e \<Rightarrow> Inl e
                         | Inr xn \<Rightarrow>
                             Inr \<lparr>acc_J = J, acc_eq = acc_eq a @ [mx_sub xk_end (sym_mx xn)]\<rparr>)
                   else Inr \<lparr>acc_J = J, acc_eq = acc_eq a\<rparr>)))"

fun shoot_loop ::
  "model \<Rightarrow> (vec \<Rightarrow> vec \<Rightarrow> vec \<times> real) \<Rightarrow> symv list \<Rightarrow> symv list \<Rightarrow> int \<Rightarrow> nat list \<Rightarrow> acc \<Rightarrow> error + acc" where
  "shoot_loop m integ xk uk nk [] a = Inr a"
| "shoot_loop m integ xk uk nk (k # ks) a =
     (case shoot_body m integ xk uk nk k a of Inl e \<Rightarrow> Inl e
      | Inr a' \<Rightarrow> shoot_loop m integ xk uk nk ks a')"

text \<open>\<open>J = 0; eq = []\<close>, the initial condition on \<open>xk[0]\<close>, then the loop over the intervals.\<close>

definition assemble ::
  "model \<Rightarrow> (vec \<Rightarrow> vec \<Rightarrow> vec \<times> real) \<Rightarrow> symv list \<Rightarrow> symv list \<Rightarrow> int \<Rightarrow> error + acc" where
  "assemble m integ xk uk nk =
     (case py_index xk 0 of Inl e \<Rightarrow> Inl e
      | Inr xf \<Rightarrow>
          shoot_loop m integ xk uk nk (py_range nk)
            \<lparr>acc_J = (\<lambda>env. 0), acc_eq = [] @ [call_init m (sym_mx xf)]\<rparr>)"

subsection \<open>The NLP handed to the solver (lines 205-213)\<close>

text \<open>
  \<open>sym_v\<close> is the symbolic decision vector \<open>v\<close>, \<open>J_expr\<close> and \<open>g_expr\<close> the outputs \<open>f\<close> and
  \<open>g\<close> of the NLP function.  \<open>setInput(0, "lbg")\<close> sets every entry of the solver's bound
  vector, which has the size of \<open>g\<close>.
\<close>

record transcription =
  sym_v :: "symv list"
  J_expr :: "env \<Rightarrow> real"
  g_expr :: mx
  lbv :: vec
  ubv :: vec
  v0 :: vec
  lbg :: vec
  ubg :: vec
  nv :: nat
  vind_x :: "nat list list"
  vind_u :: "nat list list"

definition script :: "model \<Rightarrow> real \<Rightarrow> int \<Rightarrow> int \<Rightarrow> error + transcription" where
  "script m tf nk nj =
     (case step_sizes tf nk nj of Inl e \<Rightarrow> Inl e
      | Inr (dt, h) \<Rightarrow>
          (let integ = integrator (ode_fcn (ode_f m) (quad_L m)) h nj;
               xk = map (\<lambda>k. (SymX k, nx m)) (py_range (nk + 1));
               uk = map (\<lambda>k. (SymU k, nu m)) (py_range nk)
           in case layout_all m xk uk nk of Inl e \<Rightarrow> Inl e
              | Inr s \<Rightarrow>
                  (case assemble m integ xk uk nk of Inl e \<Rightarrow> Inl e
                   | Inr a \<Rightarrow>
                       (let g = vertcat (acc_eq a)
                        in Inr \<lparr>sym_v = lay_v s, J_expr = acc_J a, g_expr = g,
                                lbv = concat (lay_lbv s), ubv = concat (lay_ubv s),
                                v0 = concat (lay_v0 s),
                                lbg = replicate (size1 g) 0, ubg = replicate (size1 g) 0,
                                nv = lay_nv s,
                                vind_x = lay_vind_x s, vind_u = lay_vind_u s\<rparr>))))"

text \<open>Evaluating the NLP function at a numeric decision vector: the vector is cut into the
  values of the symbols that make up \<open>v\<close>, in their order.\<close>

fun bind_v :: "symv list \<Rightarrow> vec \<Rightarrow> env" where
  "bind_v [] w = (\<lambda>s. [])"
| "bind_v ((s, n) # bs) w = (bind_v bs (drop n w))(s := take n w)"

definition nlp_eval :: "transcription \<Rightarrow> vec \<Rightarrow> real \<times> vec" where
  "nlp_eval p w = (let env = bind_v (sym_v p) w in (J_expr p env, mx_val (g_expr p) env))"

subsection \<open>Extraction of the solution (lines 217-225)\<close>

text \<open>\<open>v_opt[[i0, i1, ...]]\<close>.\<close>

definition fancy_index :: "vec \<Rightarrow> nat list \<Rightarrow> error + vec" where
  "fancy_index w ixs = comprehension (\<lambda>i. py_index w (int i)) ixs"

text \<open>Line 218: \<open>x0_opt = v_opt[[vind['x'][k][0] for k in range(nk+1)]]\<close>.\<close>

definition x0_opt :: "nat list list \<Rightarrow> int \<Rightarrow> vec \<Rightarrow> error + vec" where
  "x0_opt vx nk v_opt =
     (case comprehension
             (\<lambda>k. case py_index vx (int k) of Inl e \<Rightarrow> Inl e | Inr r \<Rightarrow> py_index r 0)
             (py_range (nk + 1))
      of Inl e \<Rightarrow> Inl e | Inr ixs \<Rightarrow> fancy_index v_opt ixs)"

text \<open>Line 219: \<open>x1_opt = v_opt[[vind['x'][k][1] for k in range(nk+1)]]\<close>.\<close>

definition x1_opt :: "nat list list \<Rightarrow> int \<Rightarrow> vec \<Rightarrow> error + vec" where
  "x1_opt vx nk v_opt =
     (case comprehension
             (\<lambda>k. case py_index vx (int k) of Inl e \<Rightarrow> Inl e | Inr r \<Rightarrow> py_index r 1)
             (py_range (nk + 1))
      of Inl e \<Rightarrow> Inl e | Inr ixs \<Rightarrow> fancy_index v_opt ixs)"

text \<open>Line 220: \<open>u_opt = v_opt[[vind['u'][k][0] for k in range(nk)]]\<close>.\<close>

definition u_opt :: "nat list list \<Rightarrow> int \<Rightarrow> vec \<Rightarrow> error + vec" where
  "u_opt vu nk v_opt =
     (case comprehension
             (\<lambda>k. case py_index vu (int k) of Inl e \<Rightarrow> Inl e | Inr r \<Rightarrow> py_index r 0)
             (py_range nk)
      of Inl e \<Rightarrow> Inl e | Inr ixs \<Rightarrow> fancy_index v_opt ixs)"

text \<open>Lines 218-220 one after the other: an exception of an earlier line ends the script
  before the later ones run.  These three sequences are all that the script extracts.\<close>

definition extraction :: "nat list list \<Rightarrow> nat list list \<Rightarrow> int \<Rightarrow> vec \<Rightarrow> error + vec \<times> vec \<times> vec" where
  "extraction vx vu nk v_opt =
     (case x0_opt vx nk v_opt of Inl e \<Rightarrow> Inl e
      | Inr a \<Rightarrow>
          (case x1_opt vx nk v_opt of Inl e \<Rightarrow> Inl e
           | Inr b \<Rightarrow>
               (case u_opt vu nk v_opt of Inl e \<Rightarrow> Inl e
                | Inr c \<Rightarrow> Inr (a, b, c))))"

text \<open>\<open>tgrid = linspace(0,tf,nk+1)\<close>.  \<open>linspace\<close> is numpy's, taken from its documentation:
  \<open>num\<close> evenly spaced samples from \<open>start\<close> to \<open>stop\<close>, the step being
  \<open>(stop - start) / (num - 1)\<close>.  The script reaches this line only with \<open>nk \<ge> 1\<close>.\<close>

definition linspace :: "real \<Rightarrow> real \<Rightarrow> int \<Rightarrow> vec" where
  "linspace start stop num =
     map (\<lambda>i. start + real i * ((stop - start) / of_int (num - 1))) (py_range num)"

definition tgrid :: "real \<Rightarrow> int \<Rightarrow> vec" where
  "tgrid tf nk = linspace 0 tf (nk + 1)"

text \<open>The NLP function at a numeric decision vector, as the solver calls it.\<close>

definition nlp_at :: "model \<Rightarrow> real \<Rightarrow> int \<Rightarrow> int \<Rightarrow> vec \<Rightarrow> error + real \<times> vec" where
  "nlp_at m tf nk nj w =
     (case script m tf nk nj of Inl e \<Rightarrow> Inl e | Inr p \<Rightarrow> Inr (nlp_eval p w))"

subsection \<open>A small model to evaluate the script on\<close>

text \<open>Two states, one control and two initial-condition residuals, as the model of the
  tutorial has; the dynamics are \<open>dx/dt = u - x\<close> in each state.\<close>

definition demo :: model where
  "demo = \<lparr>nx = 2, nu = 1, size_I = 2,
            ode_f = (\<lambda>x u. map (\<lambda>a. sum_list u - a) x),
            quad_L = (\<lambda>x u. sum_list (map (\<lambda>a. a * a) x) + sum_list (map (\<lambda>a. a * a) u)),
            init_I = (\<lambda>x. map (\<lambda>a. a - 1) x),
            lbx = [0, 0], ubx = [2, 2], lbu = [- 1], ubu = [1],
            x0 = [1, 1], u0 = [0]\<rparr>"

text \<open>The same model with \<open>a\<close> states and \<open>b\<close> initial-condition residuals.  It satisfies
  the shape invariant for every \<open>a\<close> and \<open>b\<close>.\<close>

definition demo_shape :: "nat \<Rightarrow> nat \<Rightarrow> model" where
  "demo_shape a b = \<lparr>nx = a, nu = 1, size_I = b,
            ode_f = (\<lambda>x u. map (\<lambda>a. sum_list u - a) x),
            quad_L = (\<lambda>x u. sum_list (map (\<lambda>a. a * a) x) + sum_list (map (\<lambda>a. a * a) u)),
            init_I = (\<lambda>x. replicate b (sum_list x - 1)),
            lbx = replicate a 0, ubx = replicate a 2, lbu = [- 1], ubu = [1],
            x0 = replicate a 1, u0 = [0]\<rparr>"

subsection \<open>Notions used to state the properties\<close>

text \<open>The pattern that lines 218-220 share, with the component \<open>i\<close> as a parameter; it serves
  the proofs only.\<close>

definition x_comp_opt :: "nat list list \<Rightarrow> int \<Rightarrow> vec \<Rightarrow> int \<Rightarrow> error + vec" where
  "x_comp_opt vx nk v_opt i =
     (case comprehension
             (\<lambda>k. case py_index vx (int k) of Inl e \<Rightarrow> Inl e | Inr r \<Rightarrow> py_index r i)
             (py_range (nk + 1))
      of Inl e \<Rightarrow> Inl e | Inr ixs \<Rightarrow> fancy_index v_opt ixs)"

definition u_comp_opt :: "nat list list \<Rightarrow> int \<Rightarrow> vec \<Rightarrow> int \<Rightarrow> error + vec" where
  "u_comp_opt vu nk v_opt i =
     (case comprehension
             (\<lambda>k. case py_index vu (int k) of Inl e \<Rightarrow> Inl e | Inr r \<Rightarrow> py_index r i)
             (py_range nk)
      of Inl e \<Rightarrow> Inl e | Inr ixs \<Rightarrow> fancy_index v_opt ixs)"

text \<open>The slice of a decision vector that an index range of the index map selects.\<close>

definition block :: "vec \<Rightarrow> nat list \<Rightarrow> vec" where
  "block w r = map (\<lambda>i. w ! i) r"

text \<open>The interval map the script builds for a model: \<open>dt = tf/nk\<close>, \<open>h = dt/nj\<close>.\<close>

definition interval_map :: "model \<Rightarrow> real \<Rightarrow> int \<Rightarrow> int \<Rightarrow> vec \<Rightarrow> vec \<Rightarrow> vec \<times> real" where
  "interval_map m tf nk nj =
     integrator (ode_fcn (ode_f m) (quad_L m)) (tf / of_int nk / of_int nj) nj"

text \<open>The index ranges in the order in which the layout allocates them:
  \<open>x0, u0, x1, u1, ..., x(nk)\<close>.\<close>

definition ranges_in_order :: "nat list list \<Rightarrow> nat list list \<Rightarrow> nat \<Rightarrow> nat list list" where
  "ranges_in_order vx vu n = concat (map (\<lambda>k. [vx ! k, vu ! k]) [0..<n]) @ [vx ! n]"

text \<open>The state of the layout loop after \<open>n\<close> passes, and of the shooting loop after \<open>n\<close>
  passes, in closed form.\<close>

definition layout_upto :: "model \<Rightarrow> nat \<Rightarrow> layout" where
  "layout_upto m n =
     \<lparr>lay_v = concat (map (\<lambda>k. [(SymX k, nx m), (SymU k, nu m)]) [0..<n]),
      lay_lbv = concat (map (\<lambda>k. [lbx m, lbu m]) [0..<n]),
      lay_ubv = concat (map (\<lambda>k. [ubx m, ubu m]) [0..<n]),
      lay_v0 = concat (map (\<lambda>k. [x0 m, u0 m]) [0..<n]),
      lay_nv = n * (nx m + nu m),
      lay_vind_x = map (\<lambda>k. [k * (nx m + nu m)..<k * (nx m + nu m) + nx m]) [0..<n],
      lay_vind_u =
        map (\<lambda>k. [k * (nx m + nu m) + nx m..<k * (nx m + nu m) + nx m + nu m]) [0..<n]\<rparr>"

definition cont_eq :: "model \<Rightarrow> (vec \<Rightarrow> vec \<Rightarrow> vec \<times> real) \<Rightarrow> nat \<Rightarrow> mx" where
  "cont_eq m integ k =
     mx_sub (fst (call_integrator (nx m) integ (sym_mx (SymX k, nx m)) (sym_mx (SymU k, nu m))))
            (sym_mx (SymX (Suc k), nx m))"

definition acc_upto :: "model \<Rightarrow> (vec \<Rightarrow> vec \<Rightarrow> vec \<times> real) \<Rightarrow> int \<Rightarrow> nat \<Rightarrow> acc" where
  "acc_upto m integ nk n =
     \<lparr>acc_J = (\<lambda>env. \<Sum>k<n. snd (integ (env (SymX k)) (env (SymU k)))),
      acc_eq = call_init m (sym_mx (SymX 0, nx m))
               # map (cont_eq m integ) (filter (\<lambda>k. int k + 1 < nk) [0..<n])\<rparr>"

definition final_layout :: "model \<Rightarrow> nat \<Rightarrow> layout" where
  "final_layout m N = alloc_x m (SymX N, nx m) (layout_upto m N)"

text \<open>What the script returns when it does not raise, in closed form.\<close>

definition final_nlp :: "model \<Rightarrow> real \<Rightarrow> int \<Rightarrow> int \<Rightarrow> transcription" where
  "final_nlp m tf nk nj =
     (let s = final_layout m (nat nk);
          a = acc_upto m (interval_map m tf nk nj) nk (nat nk);
          g = vertcat (acc_eq a)
      in \<lparr>sym_v = lay_v s, J_expr = acc_J a, g_expr = g,
          lbv = concat (lay_lbv s), ubv = concat (lay_ubv s), v0 = concat (lay_v0 s),
          lbg = replicate (size1 g) 0, ubg = replicate (size1 g) 0,
          nv = lay_nv s, vind_x = lay_vind_x s, vind_u = lay_vind_u s\<rparr>)"

text \<open>The blocks \<open>a, b, a, b, ..., a\<close> with \<open>N\<close> pairs, flattened.\<close>

fun pattern :: "vec \<Rightarrow> vec \<Rightarrow> nat \<Rightarrow> vec" where
  "pattern a b 0 = a"
| "pattern a b (Suc N) = a @ b @ pattern a b N"

section \<open>Properties of the integrator\<close>

lemma rk4_loop_append:
  "rk4_loop ode h uk (js @ js') s = rk4_loop ode h uk js' (rk4_loop ode h uk js s)"
  by (induction js arbitrary: s) simp_all

lemma rk4_body_spec: "rk4_body (ode_fcn f L) h u s = rk4_step_spec f L h u s"
  by (simp add: rk4_body_def rk4_step_spec_def ode_fcn_def Let_def)

lemma rk4_loop_upt:
  "rk4_loop (ode_fcn f L) h u [0..<n] (x, 0) = rk4_seq_spec f L h u x n"
  by (induction n) (simp_all add: rk4_loop_append rk4_body_spec)

lemma rk4_body_fst:
  "fst s = fst s' \<Longrightarrow> fst (rk4_body (ode_fcn f L) h u s) = fst (rk4_body (ode_fcn f L') h u s')"
  by (simp add: rk4_body_def ode_fcn_def Let_def)

lemma rk4_loop_fst:
  "fst s = fst s' \<Longrightarrow>
   fst (rk4_loop (ode_fcn f L) h u js s) = fst (rk4_loop (ode_fcn f L') h u js s')"
proof (induction js arbitrary: s s')
  case Nil
  then show ?case by simp
next
  case (Cons j js)
  from Cons.prems have "fst (rk4_body (ode_fcn f L) h u s) = fst (rk4_body (ode_fcn f L') h u s')"
    by (rule rk4_body_fst)
  then show ?case by (simp add: Cons.IH)
qed

section \<open>Indexing, and the layout loop in closed form\<close>

lemma py_index_nat: "k < length xs \<Longrightarrow> py_index xs (int k) = Inr (xs ! k)"
  by (simp add: py_index_def)

lemma py_index_Suc: "Suc k < length xs \<Longrightarrow> py_index xs (int k + 1) = Inr (xs ! Suc k)"
  using py_index_nat [of "Suc k" xs] by (simp add: add.commute)

lemma py_index_last: "xs \<noteq> [] \<Longrightarrow> py_index xs (- 1) = Inr (last xs)"
proof -
  assume "xs \<noteq> []"
  then have "0 < length xs" by simp
  then have "nat (int (length xs) + - 1) = length xs - 1" by linarith
  with \<open>xs \<noteq> []\<close> show ?thesis
    by (simp add: py_index_def last_conv_nth Suc_le_eq)
qed

lemma py_index_empty: "py_index [] i = Inl IndexError"
  by (simp add: py_index_def)

lemma layout_loop_append:
  "layout_loop m xk uk (ks @ ks') s =
     (case layout_loop m xk uk ks s of Inl e \<Rightarrow> Inl e | Inr s' \<Rightarrow> layout_loop m xk uk ks' s')"
  by (induction ks arbitrary: s) (simp_all split: sum.splits)

lemma layout_step_upto:
  "alloc_u m (SymU n, nu m) (alloc_x m (SymX n, nx m) (layout_upto m n)) = layout_upto m (Suc n)"
  by (simp add: alloc_u_def alloc_x_def valloc_def layout_upto_def algebra_simps)

lemma layout_loop_upt:
  "n \<le> N \<Longrightarrow>
   layout_loop m (map (\<lambda>k. (SymX k, nx m)) [0..<Suc N]) (map (\<lambda>k. (SymU k, nu m)) [0..<N])
     [0..<n] layout_init = Inr (layout_upto m n)"
proof (induction n)
  case 0
  show ?case by (simp add: layout_init_def layout_upto_def)
next
  case (Suc n)
  then have n: "n < N" by simp
  have x: "py_index (map (\<lambda>k. (SymX k, nx m)) [0..<Suc N]) (int n) = Inr (SymX n, nx m)"
    using n by (subst py_index_nat) (simp_all del: upt_Suc)
  have u: "py_index (map (\<lambda>k. (SymU k, nu m)) [0..<N]) (int n) = Inr (SymU n, nu m)"
    using n by (subst py_index_nat) simp_all
  have "layout_body m (map (\<lambda>k. (SymX k, nx m)) [0..<Suc N]) (map (\<lambda>k. (SymU k, nu m)) [0..<N])
          n (layout_upto m n) = Inr (layout_upto m (Suc n))"
    unfolding layout_body_def x u by (simp add: layout_step_upto)
  with Suc show ?case
    by (simp add: layout_loop_append del: upt_Suc add: upt_Suc_append)
qed

section \<open>The shooting loop and the whole script in closed form\<close>

lemma shoot_loop_append:
  "shoot_loop m integ xk uk nk (ks @ ks') a =
     (case shoot_loop m integ xk uk nk ks a of Inl e \<Rightarrow> Inl e
      | Inr a' \<Rightarrow> shoot_loop m integ xk uk nk ks' a')"
  by (induction ks arbitrary: a) (simp_all split: sum.splits)

lemma shoot_body_upto:
  assumes "n < N"
  shows "shoot_body m integ (map (\<lambda>k. (SymX k, nx m)) [0..<Suc N])
           (map (\<lambda>k. (SymU k, nu m)) [0..<N]) nk' n (acc_upto m integ nk' n)
         = Inr (acc_upto m integ nk' (Suc n))"
proof -
  have x: "py_index (map (\<lambda>k. (SymX k, nx m)) [0..<Suc N]) (int n) = Inr (SymX n, nx m)"
    using assms by (subst py_index_nat) (simp_all del: upt_Suc)
  have u: "py_index (map (\<lambda>k. (SymU k, nu m)) [0..<N]) (int n) = Inr (SymU n, nu m)"
    using assms by (subst py_index_nat) simp_all
  have x': "py_index (map (\<lambda>k. (SymX k, nx m)) [0..<Suc N]) (int n + 1) = Inr (SymX (Suc n), nx m)"
    using assms by (subst py_index_Suc) (simp_all del: upt_Suc)
  show ?thesis
    unfolding shoot_body_def x u x'
    using assms
    by (simp add: call_integrator_def acc_upto_def cont_eq_def sym_mx_def)
qed

lemma shoot_loop_upt:
  "n \<le> N \<Longrightarrow>
   shoot_loop m integ (map (\<lambda>k. (SymX k, nx m)) [0..<Suc N]) (map (\<lambda>k. (SymU k, nu m)) [0..<N])
     nk' [0..<n] (acc_upto m integ nk' 0) = Inr (acc_upto m integ nk' n)"
proof (induction n)
  case 0
  show ?case by simp
next
  case (Suc n)
  then have n: "n < N" by simp
  from Suc shoot_body_upto [OF n, of m integ nk'] show ?case
    by (simp add: shoot_loop_append del: upt_Suc add: upt_Suc_append)
qed

lemma filter_last_interval:
  "filter (\<lambda>k. int k + 1 < int N) [0..<N] = [0..<N - 1]"
proof (cases N)
  case 0
  then show ?thesis by simp
next
  case (Suc n)
  have "filter (\<lambda>k. int k + 1 < int (Suc n)) [0..<n] = [0..<n]"
    by (rule filter_True) simp
  then show ?thesis using Suc by simp
qed

lemma layout_all_ok:
  assumes "0 \<le> nk"
  shows "layout_all m (map (\<lambda>k. (SymX k, nx m)) (py_range (nk + 1)))
           (map (\<lambda>k. (SymU k, nu m)) (py_range nk)) nk = Inr (final_layout m (nat nk))"
proof -
  have r: "py_range (nk + 1) = [0..<Suc (nat nk)]" "py_range nk = [0..<nat nk]"
    using assms by (simp_all add: py_range_def nat_add_distrib)
  have l: "py_index (map (\<lambda>k. (SymX k, nx m)) [0..<Suc (nat nk)]) (- 1) = Inr (SymX (nat nk), nx m)"
    by (subst py_index_last) simp_all
  show ?thesis
    unfolding layout_all_def r l
    by (simp add: layout_loop_upt final_layout_def del: upt_Suc)
qed

lemma assemble_ok:
  assumes "1 \<le> nk"
  shows "assemble m integ (map (\<lambda>k. (SymX k, nx m)) (py_range (nk + 1)))
           (map (\<lambda>k. (SymU k, nu m)) (py_range nk)) nk = Inr (acc_upto m integ nk (nat nk))"
proof -
  have r: "py_range (nk + 1) = [0..<Suc (nat nk)]" "py_range nk = [0..<nat nk]"
    using assms by (simp_all add: py_range_def nat_add_distrib)
  have f: "py_index (map (\<lambda>k. (SymX k, nx m)) [0..<Suc (nat nk)]) 0 = Inr (SymX 0, nx m)"
    using py_index_nat [of 0 "map (\<lambda>k. (SymX k, nx m)) [0..<Suc (nat nk)]"]
    by (simp del: upt_Suc add: upt_conv_Cons)
  have a0: "\<lparr>acc_J = (\<lambda>env. 0), acc_eq = [] @ [call_init m (sym_mx (SymX 0, nx m))]\<rparr>
            = acc_upto m integ nk 0"
    by (simp add: acc_upto_def)
  show ?thesis
    unfolding assemble_def r f a0 sum.case
    by (rule shoot_loop_upt) simp
qed

lemma step_sizes_ok:
  "nk \<noteq> 0 \<Longrightarrow> nj \<noteq> 0 \<Longrightarrow>
   step_sizes tf nk nj = Inr (tf / of_int nk, tf / of_int nk / of_int nj)"
  by (simp add: step_sizes_def)

lemma script_ok:
  assumes "1 \<le> nk" "nj \<noteq> 0"
  shows "script m tf nk nj = Inr (final_nlp m tf nk nj)"
proof -
  have "nk \<noteq> 0" "0 \<le> nk" using assms by simp_all
  then show ?thesis
    unfolding script_def
    using assms
    by (simp add: step_sizes_ok Let_def layout_all_ok assemble_ok final_nlp_def interval_map_def)
qed

section \<open>Symbols and index ranges\<close>

lemma bind_layout_x:
  "k \<le> n \<Longrightarrow>
   bind_v (concat (map (\<lambda>k. [(SymX k, p), (SymU k, q)]) [a..<a + n]) @ [(SymX (a + n), p)]) w
     (SymX (a + k)) = take p (drop (k * (p + q)) w)"
proof (induction n arbitrary: a k w)
  case 0
  then show ?case by simp
next
  case (Suc n)
  have split: "[a..<a + Suc n] = a # [Suc a..<Suc a + n]"
    by (simp add: upt_conv_Cons)
  show ?case
  proof (cases k)
    case 0
    then show ?thesis unfolding split by simp
  next
    case (Suc k')
    with Suc.prems have "k' \<le> n" by simp
    from Suc.IH [OF this, of "Suc a" "drop q (drop p w)"] Suc show ?thesis
      unfolding split by (simp add: add.commute add.left_commute)
  qed
qed

lemma bind_layout_u:
  "k < n \<Longrightarrow>
   bind_v (concat (map (\<lambda>k. [(SymX k, p), (SymU k, q)]) [a..<a + n]) @ [(SymX (a + n), p)]) w
     (SymU (a + k)) = take q (drop (k * (p + q) + p) w)"
proof (induction n arbitrary: a k w)
  case 0
  then show ?case by simp
next
  case (Suc n)
  have split: "[a..<a + Suc n] = a # [Suc a..<Suc a + n]"
    by (simp add: upt_conv_Cons)
  show ?case
  proof (cases k)
    case 0
    then show ?thesis unfolding split by (simp add: add.commute)
  next
    case (Suc k')
    with Suc.prems have "k' < n" by simp
    from Suc.IH [OF this, of "Suc a" "drop q (drop p w)"] Suc show ?thesis
      unfolding split by (simp add: add.commute add.left_commute)
  qed
qed

lemma block_upt: "a + n \<le> length w \<Longrightarrow> block w [a..<a + n] = take n (drop a w)"
  by (rule nth_equalityI) (simp_all add: block_def)

lemma nv_final: "nv (final_nlp m tf nk nj) = nat nk * (nx m + nu m) + nx m"
  by (simp add: final_nlp_def final_layout_def alloc_x_def valloc_def layout_upto_def Let_def)

lemma vind_x_final:
  "vind_x (final_nlp m tf nk nj) =
     map (\<lambda>k. [k * (nx m + nu m)..<k * (nx m + nu m) + nx m]) [0..<Suc (nat nk)]"
  by (simp add: final_nlp_def final_layout_def alloc_x_def valloc_def layout_upto_def Let_def)

lemma vind_u_final:
  "vind_u (final_nlp m tf nk nj) =
     map (\<lambda>k. [k * (nx m + nu m) + nx m..<k * (nx m + nu m) + nx m + nu m]) [0..<nat nk]"
  by (simp add: final_nlp_def final_layout_def alloc_x_def valloc_def layout_upto_def Let_def)

lemma sym_v_final:
  "sym_v (final_nlp m tf nk nj) =
     concat (map (\<lambda>k. [(SymX k, nx m), (SymU k, nu m)]) [0..<nat nk]) @ [(SymX (nat nk), nx m)]"
  by (simp add: final_nlp_def final_layout_def alloc_x_def valloc_def layout_upto_def Let_def)

lemma vind_x_nth:
  "k \<le> nat nk \<Longrightarrow>
   vind_x (final_nlp m tf nk nj) ! k = [k * (nx m + nu m)..<k * (nx m + nu m) + nx m]"
  unfolding vind_x_final by (subst nth_map) (simp_all del: upt_Suc)

lemma vind_u_nth:
  "k < nat nk \<Longrightarrow>
   vind_u (final_nlp m tf nk nj) ! k
     = [k * (nx m + nu m) + nx m..<k * (nx m + nu m) + nx m + nu m]"
  unfolding vind_u_final by (subst nth_map) simp_all

lemma block_bound_x:
  assumes "k \<le> N"
  shows "k * (p + q) + p \<le> N * (p + q) + (p::nat)"
proof -
  from assms have "k * (p + q) \<le> N * (p + q)" by (rule mult_le_mono1)
  then show ?thesis by simp
qed

lemma block_bound_u:
  assumes "k < N"
  shows "k * (p + q) + p + q \<le> N * (p + q) + (p::nat)"
proof -
  from assms have "Suc k * (p + q) \<le> N * (p + q)" by (intro mult_le_mono1) simp
  then show ?thesis by simp
qed

lemma env_x:
  assumes "length w = nv (final_nlp m tf nk nj)" "k \<le> nat nk"
  shows "bind_v (sym_v (final_nlp m tf nk nj)) w (SymX k)
         = block w (vind_x (final_nlp m tf nk nj) ! k)"
proof -
  have "k * (nx m + nu m) + nx m \<le> length w"
    using assms block_bound_x [of k "nat nk" "nx m" "nu m"] by (simp add: nv_final)
  then have "block w [k * (nx m + nu m)..<k * (nx m + nu m) + nx m]
             = take (nx m) (drop (k * (nx m + nu m)) w)"
    by (rule block_upt)
  moreover have "bind_v (sym_v (final_nlp m tf nk nj)) w (SymX k)
                 = take (nx m) (drop (k * (nx m + nu m)) w)"
    unfolding sym_v_final
    using bind_layout_x [OF assms(2), of "nx m" "nu m" 0 w] by simp
  ultimately show ?thesis using assms(2) by (simp add: vind_x_nth)
qed

lemma env_u:
  assumes "length w = nv (final_nlp m tf nk nj)" "k < nat nk"
  shows "bind_v (sym_v (final_nlp m tf nk nj)) w (SymU k)
         = block w (vind_u (final_nlp m tf nk nj) ! k)"
proof -
  have "k * (nx m + nu m) + nx m + nu m \<le> length w"
    using assms block_bound_u [of k "nat nk" "nx m" "nu m"] by (simp add: nv_final)
  then have "block w [k * (nx m + nu m) + nx m..<k * (nx m + nu m) + nx m + nu m]
             = take (nu m) (drop (k * (nx m + nu m) + nx m) w)"
    by (rule block_upt)
  moreover have "bind_v (sym_v (final_nlp m tf nk nj)) w (SymU k)
                 = take (nu m) (drop (k * (nx m + nu m) + nx m) w)"
    unfolding sym_v_final
    using bind_layout_u [OF assms(2), of "nx m" "nu m" 0 w] by simp
  ultimately show ?thesis using assms(2) by (simp add: vind_u_nth)
qed

section \<open>The interval map and the objective expression\<close>

lemma integ_value: "integrator (ode_fcn f L) h nj x u = rk4_seq_spec f L h u x (nat nj)"
  by (simp add: integrator_def py_range_def rk4_loop_upt)

lemma foldl_sum:
  "foldl (\<lambda>J k. J + g k) (0::real) [0..<n] = (\<Sum>k<n. g k)"
  by (induction n) simp_all

lemma J_final:
  "J_expr (final_nlp m tf nk nj)
   = (\<lambda>env. \<Sum>k<nat nk. snd (interval_map m tf nk nj (env (SymX k)) (env (SymU k))))"
  by (simp add: final_nlp_def acc_upto_def Let_def)

lemma wf_demo: "wf_model demo"
  by (simp add: wf_model_def demo_def)

section \<open>The index ranges in allocation order\<close>

lemma concat_ranges_upto:
  "concat (concat (map (\<lambda>k. [[k * (p + q)..<k * (p + q) + p],
                                 [k * (p + q) + p..<k * (p + q) + p + q]]) [0..<n]))
   = [0..<n * (p + q)]"
proof (induction n)
  case 0
  show ?case by simp
next
  case (Suc n)
  let ?f = "\<lambda>k. [[k * (p + q)..<k * (p + q) + p], [k * (p + q) + p..<k * (p + q) + p + q]]"
  have a: "[n * (p + q)..<n * (p + q) + p] @ [n * (p + q) + p..<n * (p + q) + p + q]
           = [n * (p + q)..<n * (p + q) + p + q]"
    using upt_add_eq_append [of "n * (p + q)" "n * (p + q) + p" q] by simp
  have b: "[0..<n * (p + q)] @ [n * (p + q)..<n * (p + q) + p + q] = [0..<Suc n * (p + q)]"
    using upt_add_eq_append [of 0 "n * (p + q)" "p + q"] by (simp add: ac_simps)
  have "concat (concat (map ?f [0..<Suc n]))
        = concat (concat (map ?f [0..<n]))
          @ ([n * (p + q)..<n * (p + q) + p] @ [n * (p + q) + p..<n * (p + q) + p + q])"
    by simp
  also have "\<dots> = [0..<n * (p + q)] @ [n * (p + q)..<n * (p + q) + p + q]"
    by (simp only: Suc.IH a)
  also have "\<dots> = [0..<Suc n * (p + q)]" by (rule b)
  finally show ?case .
qed

lemma set_concat_pairs: "set (concat (map (\<lambda>k. [a k, b k]) ks)) = a ` set ks \<union> b ` set ks"
  by (induction ks) auto

lemma ranges_in_order_final:
  "ranges_in_order (vind_x (final_nlp m tf nk nj)) (vind_u (final_nlp m tf nk nj)) (nat nk)
   = concat (map (\<lambda>k. [[k * (nx m + nu m)..<k * (nx m + nu m) + nx m],
                         [k * (nx m + nu m) + nx m..<k * (nx m + nu m) + nx m + nu m]])
               [0..<nat nk])
     @ [[nat nk * (nx m + nu m)..<nat nk * (nx m + nu m) + nx m]]"
proof -
  have eq: "map (\<lambda>k. [vind_x (final_nlp m tf nk nj) ! k, vind_u (final_nlp m tf nk nj) ! k]) [0..<nat nk]
        = map (\<lambda>k. [[k * (nx m + nu m)..<k * (nx m + nu m) + nx m],
                      [k * (nx m + nu m) + nx m..<k * (nx m + nu m) + nx m + nu m]]) [0..<nat nk]"
    by (rule map_cong) (simp_all add: vind_x_nth vind_u_nth)
  show ?thesis
    unfolding ranges_in_order_def eq by (simp add: vind_x_nth)
qed

lemma ranges_cover:
  "concat (ranges_in_order (vind_x (final_nlp m tf nk nj)) (vind_u (final_nlp m tf nk nj)) (nat nk))
   = [0..<nv (final_nlp m tf nk nj)]"
proof -
  have "[0..<nat nk * (nx m + nu m) + nx m]
        = [0..<nat nk * (nx m + nu m)] @ [nat nk * (nx m + nu m)..<nat nk * (nx m + nu m) + nx m]"
    by (rule upt_add_eq_append) simp
  then show ?thesis
    by (simp add: ranges_in_order_final nv_final concat_ranges_upto)
qed

lemma ranges_set:
  "set (ranges_in_order (vind_x (final_nlp m tf nk nj)) (vind_u (final_nlp m tf nk nj)) (nat nk))
   = set (vind_x (final_nlp m tf nk nj)) \<union> set (vind_u (final_nlp m tf nk nj))"
  unfolding ranges_in_order_final
  by (auto simp add: vind_x_final vind_u_final set_concat_pairs)

lemma unique_range:
  assumes "concat bs = [0..<N]" "i < N"
  shows "\<exists>!r. r \<in> set bs \<and> i \<in> set r"
proof -
  have d: "distinct (concat bs)" using assms(1) by simp
  have "i \<in> set (concat bs)" using assms by simp
  then obtain r where r: "r \<in> set bs" "i \<in> set r" by auto
  show ?thesis
  proof (intro ex1I [of _ r] conjI r)
    fix r' assume r': "r' \<in> set bs \<and> i \<in> set r'"
    show "r' = r"
    proof (rule ccontr)
      assume "r' \<noteq> r"
      with d r r' have "set r' \<inter> set r = {}"
        unfolding distinct_concat_iff by blast
      with r r' show False by blast
    qed
  qed
qed

section \<open>The bound and guess vectors\<close>

lemma pattern_concat: "concat (concat (replicate N [a, b]) @ [a]) = pattern a b N"
  by (induction N) simp_all

lemma pattern_length:
  assumes "length a = p" "length b = q"
  shows "length (concat (concat (replicate N [a, b]) @ [a])) = N * (p + q) + p"
  using assms by (induction N) simp_all

lemma drop_length_plus: "drop (length xs + n) (xs @ ys) = drop n ys"
  by simp

lemma drop_one_period:
  assumes "length a = p" "length b = q"
  shows "drop (Suc k * (p + q) + r) (a @ b @ R) = drop (k * (p + q) + r) R"
proof -
  have "Suc k * (p + q) + r = length (a @ b) + (k * (p + q) + r)"
    using assms by simp
  then have "drop (Suc k * (p + q) + r) ((a @ b) @ R) = drop (k * (p + q) + r) R"
    by (simp only: drop_length_plus)
  then show ?thesis by simp
qed

lemma pattern_x:
  assumes "length a = p" "length b = q"
  shows "k \<le> N \<Longrightarrow> take p (drop (k * (p + q)) (pattern a b N)) = a"
proof (induction N arbitrary: k)
  case 0
  then show ?case using assms by simp
next
  case (Suc N)
  show ?case
  proof (cases k)
    case 0
    then show ?thesis using assms by simp
  next
    case (Suc k')
    with Suc.prems have "k' \<le> N" by simp
    from Suc.IH [OF this] drop_one_period [OF assms, of k' 0 "pattern a b N"] show ?thesis
      unfolding Suc pattern.simps by (simp only: add_0_right)
  qed
qed

lemma pattern_u:
  assumes "length a = p" "length b = q"
  shows "k < N \<Longrightarrow> take q (drop (k * (p + q) + p) (pattern a b N)) = b"
proof (induction N arbitrary: k)
  case 0
  then show ?case by simp
next
  case (Suc N)
  show ?case
  proof (cases k)
    case 0
    then show ?thesis using assms by simp
  next
    case (Suc k')
    with Suc.prems have "k' < N" by simp
    from Suc.IH [OF this] show ?thesis
      unfolding Suc pattern.simps by (simp only: drop_one_period [OF assms])
  qed
qed

lemma lbv_final:
  "lbv (final_nlp m tf nk nj) = concat (concat (replicate (nat nk) [lbx m, lbu m]) @ [lbx m])"
  by (simp add: final_nlp_def final_layout_def alloc_x_def valloc_def layout_upto_def Let_def
        map_replicate_const)

lemma ubv_final:
  "ubv (final_nlp m tf nk nj) = concat (concat (replicate (nat nk) [ubx m, ubu m]) @ [ubx m])"
  by (simp add: final_nlp_def final_layout_def alloc_x_def valloc_def layout_upto_def Let_def
        map_replicate_const)

lemma v0_final:
  "v0 (final_nlp m tf nk nj) = concat (concat (replicate (nat nk) [x0 m, u0 m]) @ [x0 m])"
  by (simp add: final_nlp_def final_layout_def alloc_x_def valloc_def layout_upto_def Let_def
        map_replicate_const)

lemma pattern_block_x:
  assumes "length a = nx m" "length b = nu m" "k \<le> nat nk"
  shows "block (concat (concat (replicate (nat nk) [a, b]) @ [a]))
           (vind_x (final_nlp m tf nk nj) ! k) = a"
proof -
  let ?W = "concat (concat (replicate (nat nk) [a, b]) @ [a])"
  have "k * (nx m + nu m) + nx m \<le> length ?W"
    using block_bound_x [OF assms(3), of "nx m" "nu m"]
    by (simp only: pattern_length [OF assms(1,2)])
  then have "block ?W [k * (nx m + nu m)..<k * (nx m + nu m) + nx m]
             = take (nx m) (drop (k * (nx m + nu m)) ?W)"
    by (rule block_upt)
  then show ?thesis
    using assms(3) by (simp only: vind_x_nth pattern_concat pattern_x [OF assms])
qed

lemma pattern_block_u:
  assumes "length a = nx m" "length b = nu m" "k < nat nk"
  shows "block (concat (concat (replicate (nat nk) [a, b]) @ [a]))
           (vind_u (final_nlp m tf nk nj) ! k) = b"
proof -
  let ?W = "concat (concat (replicate (nat nk) [a, b]) @ [a])"
  have "k * (nx m + nu m) + nx m + nu m \<le> length ?W"
    using block_bound_u [OF assms(3), of "nx m" "nu m"]
    by (simp only: pattern_length [OF assms(1,2)])
  then have "block ?W [k * (nx m + nu m) + nx m..<k * (nx m + nu m) + nx m + nu m]
             = take (nu m) (drop (k * (nx m + nu m) + nx m) ?W)"
    by (rule block_upt)
  then show ?thesis
    using assms(3) by (simp only: vind_u_nth pattern_concat pattern_u [OF assms])
qed

section \<open>Values of the objective and of the constraints\<close>

lemma g_final:
  assumes "0 \<le> nk"
  shows "g_expr (final_nlp m tf nk nj)
         = vertcat (call_init m (sym_mx (SymX 0, nx m))
                    # map (cont_eq m (interval_map m tf nk nj)) [0..<nat nk - 1])"
proof -
  have "filter (\<lambda>k. int k + 1 < nk) [0..<nat nk] = [0..<nat nk - 1]"
    using filter_last_interval [of "nat nk"] assms by simp
  then show ?thesis
    by (simp add: final_nlp_def acc_upto_def Let_def)
qed

lemma size1_g_final:
  assumes "0 \<le> nk"
  shows "size1 (g_expr (final_nlp m tf nk nj)) = size_I m + (nat nk - 1) * nx m"
proof -
  have "sum_list (map (\<lambda>k. nx m) [0..<n]) = n * nx m" for n
    by (induction n) simp_all
  then show ?thesis
    unfolding g_final [OF assms]
    by (simp add: vertcat_def call_init_def cont_eq_def mx_sub_def call_integrator_def comp_def)
qed

lemma J_value:
  assumes "length w = nv (final_nlp m tf nk nj)"
  shows "fst (nlp_eval (final_nlp m tf nk nj) w)
         = (\<Sum>k<nat nk. snd (interval_map m tf nk nj
                                 (block w (vind_x (final_nlp m tf nk nj) ! k))
                                 (block w (vind_u (final_nlp m tf nk nj) ! k))))"
proof -
  let ?p = "final_nlp m tf nk nj"
  let ?env = "bind_v (sym_v ?p) w"
  have "fst (nlp_eval ?p w)
        = (\<Sum>k<nat nk. snd (interval_map m tf nk nj (?env (SymX k)) (?env (SymU k))))"
    by (simp add: nlp_eval_def Let_def J_final)
  also have "\<dots> = (\<Sum>k<nat nk. snd (interval_map m tf nk nj (block w (vind_x ?p ! k))
                                                             (block w (vind_u ?p ! k))))"
  proof (rule sum.cong)
    fix k assume "k \<in> {..<nat nk}"
    then have k: "k < nat nk" by simp
    then have "k \<le> nat nk" by simp
    from env_x [OF assms this] env_u [OF assms k]
    show "snd (interval_map m tf nk nj (?env (SymX k)) (?env (SymU k)))
          = snd (interval_map m tf nk nj (block w (vind_x ?p ! k)) (block w (vind_u ?p ! k)))"
      by simp
  qed simp
  finally show ?thesis .
qed

lemma g_value:
  assumes "1 \<le> nk" "length w = nv (final_nlp m tf nk nj)"
  shows "snd (nlp_eval (final_nlp m tf nk nj) w)
         = init_I m (block w (vind_x (final_nlp m tf nk nj) ! 0))
           @ concat (map (\<lambda>k. vsub (fst (interval_map m tf nk nj
                                             (block w (vind_x (final_nlp m tf nk nj) ! k))
                                             (block w (vind_u (final_nlp m tf nk nj) ! k))))
                                    (block w (vind_x (final_nlp m tf nk nj) ! Suc k)))
                       [0..<nat nk - 1])"
proof -
  let ?p = "final_nlp m tf nk nj"
  let ?env = "bind_v (sym_v ?p) w"
  let ?F = "interval_map m tf nk nj"
  have nk0: "0 \<le> nk" using assms(1) by simp
  have "snd (nlp_eval ?p w)
        = init_I m (?env (SymX 0))
          @ concat (map (\<lambda>k. vsub (fst (?F (?env (SymX k)) (?env (SymU k)))) (?env (SymX (Suc k))))
                      [0..<nat nk - 1])"
    by (simp add: nlp_eval_def Let_def g_final [OF nk0] vertcat_def call_init_def cont_eq_def
          mx_sub_def call_integrator_def sym_mx_def comp_def)
  also have "init_I m (?env (SymX 0)) = init_I m (block w (vind_x ?p ! 0))"
    using env_x [OF assms(2), of 0] by simp
  also have "map (\<lambda>k. vsub (fst (?F (?env (SymX k)) (?env (SymU k)))) (?env (SymX (Suc k))))
               [0..<nat nk - 1]
             = map (\<lambda>k. vsub (fst (?F (block w (vind_x ?p ! k)) (block w (vind_u ?p ! k))))
                              (block w (vind_x ?p ! Suc k)))
               [0..<nat nk - 1]"
  proof (rule map_cong)
    fix k assume "k \<in> set [0..<nat nk - 1]"
    then have k: "k < nat nk" "k \<le> nat nk" "Suc k \<le> nat nk" by simp_all
    from env_x [OF assms(2) k(2)] env_x [OF assms(2) k(3)] env_u [OF assms(2) k(1)]
    show "vsub (fst (?F (?env (SymX k)) (?env (SymU k)))) (?env (SymX (Suc k)))
          = vsub (fst (?F (block w (vind_x ?p ! k)) (block w (vind_u ?p ! k))))
                 (block w (vind_x ?p ! Suc k))"
      by simp
  qed simp
  finally show ?thesis .
qed

lemma lbg_final: "lbg (final_nlp m tf nk nj) = replicate (size1 (g_expr (final_nlp m tf nk nj))) 0"
  by (simp add: final_nlp_def Let_def)

lemma ubg_final: "ubg (final_nlp m tf nk nj) = replicate (size1 (g_expr (final_nlp m tf nk nj))) 0"
  by (simp add: final_nlp_def Let_def)

lemma length_vadd: "length (vadd a b) = min (length a) (length b)"
  by (simp add: vadd_def)

lemma length_vsub: "length (vsub a b) = min (length a) (length b)"
  by (simp add: vsub_def)

lemma length_smul: "length (smul c a) = length a"
  by (simp add: smul_def)

lemma rk4_body_length:
  assumes f: "\<And>x u. length x = n \<Longrightarrow> length u = q \<Longrightarrow> length (f x u) = n"
    and s: "length (fst s) = n" and u: "length u = q"
  shows "length (fst (rk4_body (ode_fcn f L) h u s)) = n"
proof -
  let ?x = "fst s"
  let ?k1 = "f ?x u"
  let ?k2 = "f (vadd ?x (smul (h / 2) ?k1)) u"
  let ?k3 = "f (vadd ?x (smul (h / 2) ?k2)) u"
  let ?k4 = "f (vadd ?x (smul h ?k3)) u"
  have k1: "length ?k1 = n" using s u by (rule f)
  have k2: "length ?k2 = n" by (rule f) (simp_all add: length_vadd length_smul s k1 u)
  have k3: "length ?k3 = n" by (rule f) (simp_all add: length_vadd length_smul s k2 u)
  have k4: "length ?k4 = n" by (rule f) (simp_all add: length_vadd length_smul s k3 u)
  show ?thesis
    by (simp add: rk4_body_def ode_fcn_def Let_def length_vadd length_smul s k1 k2 k3 k4)
qed

lemma rk4_loop_length:
  assumes f: "\<And>x u. length x = n \<Longrightarrow> length u = q \<Longrightarrow> length (f x u) = n"
    and u: "length u = q"
  shows "length (fst s) = n \<Longrightarrow> length (fst (rk4_loop (ode_fcn f L) h u js s)) = n"
proof (induction js arbitrary: s)
  case Nil
  then show ?case by simp
next
  case (Cons j js)
  have "length (fst (rk4_body (ode_fcn f L) h u s)) = n"
    using f Cons.prems u by (rule rk4_body_length)
  then show ?case by (simp add: Cons.IH)
qed

lemma interval_map_length:
  assumes "wf_model m" "length x = nx m" "length u = nu m"
  shows "length (fst (interval_map m tf nk nj x u)) = nx m"
proof -
  have f: "\<And>x u. length x = nx m \<Longrightarrow> length u = nu m \<Longrightarrow> length (ode_f m x u) = nx m"
    using assms(1) by (simp add: wf_model_def)
  have u: "length u = nu m" using assms(3) .
  have "length (fst (x, 0::real)) = nx m" using assms(2) by simp
  with f u show ?thesis
    unfolding interval_map_def integrator_def by (rule rk4_loop_length)
qed

lemma length_block_x:
  "k \<le> nat nk \<Longrightarrow> length (block w (vind_x (final_nlp m tf nk nj) ! k)) = nx m"
  by (simp add: block_def vind_x_nth)

lemma length_block_u:
  "k < nat nk \<Longrightarrow> length (block w (vind_u (final_nlp m tf nk nj) ! k)) = nu m"
  by (simp add: block_def vind_u_nth)

lemma length_concat_const:
  assumes "\<And>k. k \<in> set ks \<Longrightarrow> length (c k) = n"
  shows "length (concat (map c ks)) = length ks * n"
  using assms by (induction ks) simp_all

lemma demo_interval_1:
  "interval_map demo 1 1 1 [1, 1] [0] = ([3 / 8, 3 / 8], 43 / 48)"
proof -
  have one: "nat 1 = Suc 0" by simp
  show ?thesis
    unfolding interval_map_def integ_value one
    by (simp add: rk4_step_spec_def demo_def vadd_def smul_def Let_def)
qed

lemma demo_nlp_1: "script demo 1 1 1 = Inr (final_nlp demo 1 1 1)"
  by (rule script_ok) simp_all

lemma demo_vind_1:
  "vind_x (final_nlp demo 1 1 1) = [[0, 1], [3, 4]]" "vind_u (final_nlp demo 1 1 1) = [[2]]"
  "nv (final_nlp demo 1 1 1) = 5"
  by (simp_all add: vind_x_final vind_u_final nv_final demo_def upt_rec)

lemma before_last_block:
  assumes "k < N"
  shows "k * (p + q) + p + q \<le> N * (p + (q::nat))"
proof -
  from assms have "Suc k * (p + q) \<le> N * (p + q)" by (intro mult_le_mono1) simp
  then show ?thesis by simp
qed

lemma agree_x:
  assumes k: "k < nat nk"
    and agree: "\<And>i. i < nv (final_nlp m tf nk nj) \<Longrightarrow>
                  i \<notin> set (vind_x (final_nlp m tf nk nj) ! nat nk) \<Longrightarrow> w ! i = w' ! i"
  shows "block w (vind_x (final_nlp m tf nk nj) ! k) = block w' (vind_x (final_nlp m tf nk nj) ! k)"
proof -
  let ?d = "nx m + nu m"
  have b: "k * ?d + nx m + nu m \<le> nat nk * ?d" using k by (rule before_last_block)
  have "w ! i = w' ! i" if "i \<in> set [k * ?d..<k * ?d + nx m]" for i
  proof (rule agree)
    from that b show "i < nv (final_nlp m tf nk nj)" by (simp add: nv_final)
    from that b show "i \<notin> set (vind_x (final_nlp m tf nk nj) ! nat nk)"
      by (simp add: vind_x_nth)
  qed
  then show ?thesis
    using k by (simp add: vind_x_nth block_def)
qed

lemma agree_u:
  assumes k: "k < nat nk"
    and agree: "\<And>i. i < nv (final_nlp m tf nk nj) \<Longrightarrow>
                  i \<notin> set (vind_x (final_nlp m tf nk nj) ! nat nk) \<Longrightarrow> w ! i = w' ! i"
  shows "block w (vind_u (final_nlp m tf nk nj) ! k) = block w' (vind_u (final_nlp m tf nk nj) ! k)"
proof -
  let ?d = "nx m + nu m"
  have b: "k * ?d + nx m + nu m \<le> nat nk * ?d" using k by (rule before_last_block)
  have "w ! i = w' ! i" if "i \<in> set [k * ?d + nx m..<k * ?d + nx m + nu m]" for i
  proof (rule agree)
    from that b show "i < nv (final_nlp m tf nk nj)" by (simp add: nv_final)
    from that b show "i \<notin> set (vind_x (final_nlp m tf nk nj) ! nat nk)"
      by (simp add: vind_x_nth)
  qed
  then show ?thesis
    using k by (simp add: vind_u_nth block_def)
qed

section \<open>The extraction in closed form\<close>

lemma comprehension_ok:
  "(\<And>k. k \<in> set ks \<Longrightarrow> g k = Inr (h k)) \<Longrightarrow> comprehension g ks = Inr (map h ks)"
  by (induction ks) simp_all

lemma fancy_index_ok:
  assumes "\<And>j. j \<in> set ixs \<Longrightarrow> j < length w"
  shows "fancy_index w ixs = Inr (map (\<lambda>j. w ! j) ixs)"
  unfolding fancy_index_def
  by (rule comprehension_ok) (simp add: py_index_nat assms)

lemma x_comp_opt_ok:
  assumes nk: "0 \<le> nk" and len: "length v_opt = nv (final_nlp m tf nk nj)" and i: "i < nx m"
  shows "x_comp_opt (vind_x (final_nlp m tf nk nj)) nk v_opt (int i)
         = Inr (map (\<lambda>k. block v_opt (vind_x (final_nlp m tf nk nj) ! k) ! i) [0..<nat nk + 1])"
proof -
  let ?p = "final_nlp m tf nk nj"
  let ?d = "nx m + nu m"
  have r: "py_range (nk + 1) = [0..<nat nk + 1]"
    using nk by (simp add: py_range_def nat_add_distrib)
  have inner: "(case py_index (vind_x ?p) (int k) of Inl e \<Rightarrow> Inl e | Inr r \<Rightarrow> py_index r (int i))
               = Inr (k * ?d + i)" if "k \<in> set [0..<nat nk + 1]" for k
  proof -
    from that have k: "k \<le> nat nk" "k < length (vind_x ?p)" by (auto simp add: vind_x_final)
    have "py_index (vind_x ?p) (int k) = Inr [k * ?d..<k * ?d + nx m]"
      using py_index_nat [OF k(2)] vind_x_nth [OF k(1), of m tf nj] by simp
    moreover have "py_index [k * ?d..<k * ?d + nx m] (int i) = Inr (k * ?d + i)"
      using i by (subst py_index_nat) simp_all
    ultimately show ?thesis by simp
  qed
  have ixs: "comprehension
               (\<lambda>k. case py_index (vind_x ?p) (int k) of Inl e \<Rightarrow> Inl e | Inr r \<Rightarrow> py_index r (int i))
               [0..<nat nk + 1]
             = Inr (map (\<lambda>k. k * ?d + i) [0..<nat nk + 1])"
    using inner by (rule comprehension_ok)
  have bound: "j < length v_opt" if "j \<in> set (map (\<lambda>k. k * ?d + i) [0..<nat nk + 1])" for j
  proof -
    from that have "j \<in> (\<lambda>k. k * ?d + i) ` {0..<nat nk + 1}" by (simp del: upt_Suc)
    then obtain k where "k \<in> {0..<nat nk + 1}" and k2: "j = k * ?d + i" by (rule imageE)
    then have k: "k \<le> nat nk" "j = k * ?d + i" by simp_all
    have "k * ?d + nx m \<le> nat nk * ?d + nx m" using k(1) by (rule block_bound_x)
    with i k(2) have "j < nat nk * ?d + nx m" by linarith
    then show ?thesis by (simp only: len nv_final)
  qed
  have "map (\<lambda>j. v_opt ! j) (map (\<lambda>k. k * ?d + i) [0..<nat nk + 1])
        = map (\<lambda>k. block v_opt (vind_x ?p ! k) ! i) [0..<nat nk + 1]"
  proof (rule nth_equalityI)
    fix k assume "k < length (map (\<lambda>j. v_opt ! j) (map (\<lambda>k. k * ?d + i) [0..<nat nk + 1]))"
    then have k: "k \<le> nat nk" by simp
    then have "[0..<nat nk + 1] ! k = k" by (subst nth_upt) simp_all
    with k i show "map (\<lambda>j. v_opt ! j) (map (\<lambda>k. k * ?d + i) [0..<nat nk + 1]) ! k
          = map (\<lambda>k. block v_opt (vind_x ?p ! k) ! i) [0..<nat nk + 1] ! k"
      by (simp add: vind_x_nth block_def del: upt_Suc)
  qed simp
  with fancy_index_ok [of "map (\<lambda>k. k * ?d + i) [0..<nat nk + 1]" v_opt, OF bound]
  show ?thesis
    unfolding x_comp_opt_def r ixs by simp
qed

lemma u_comp_opt_ok:
  assumes nk: "0 \<le> nk" and len: "length v_opt = nv (final_nlp m tf nk nj)" and i: "i < nu m"
  shows "u_comp_opt (vind_u (final_nlp m tf nk nj)) nk v_opt (int i)
         = Inr (map (\<lambda>k. block v_opt (vind_u (final_nlp m tf nk nj) ! k) ! i) [0..<nat nk])"
proof -
  let ?p = "final_nlp m tf nk nj"
  let ?d = "nx m + nu m"
  have r: "py_range nk = [0..<nat nk]"
    by (simp add: py_range_def)
  have inner: "(case py_index (vind_u ?p) (int k) of Inl e \<Rightarrow> Inl e | Inr r \<Rightarrow> py_index r (int i))
               = Inr (k * ?d + nx m + i)" if "k \<in> set [0..<nat nk]" for k
  proof -
    from that have k: "k < nat nk" "k < length (vind_u ?p)" by (simp_all add: vind_u_final)
    have "py_index (vind_u ?p) (int k) = Inr [k * ?d + nx m..<k * ?d + nx m + nu m]"
      using py_index_nat [OF k(2)] vind_u_nth [OF k(1), of m tf nj] by simp
    moreover have "py_index [k * ?d + nx m..<k * ?d + nx m + nu m] (int i) = Inr (k * ?d + nx m + i)"
      using i by (subst py_index_nat) simp_all
    ultimately show ?thesis by simp
  qed
  have ixs: "comprehension
               (\<lambda>k. case py_index (vind_u ?p) (int k) of Inl e \<Rightarrow> Inl e | Inr r \<Rightarrow> py_index r (int i))
               [0..<nat nk]
             = Inr (map (\<lambda>k. k * ?d + nx m + i) [0..<nat nk])"
    using inner by (rule comprehension_ok)
  have bound: "j < length v_opt" if "j \<in> set (map (\<lambda>k. k * ?d + nx m + i) [0..<nat nk])" for j
  proof -
    from that have "j \<in> (\<lambda>k. k * ?d + nx m + i) ` {0..<nat nk}" by simp
    then obtain k where "k \<in> {0..<nat nk}" and k2: "j = k * ?d + nx m + i" by (rule imageE)
    then have k: "k < nat nk" "j = k * ?d + nx m + i" by simp_all
    have "k * ?d + nx m + nu m \<le> nat nk * ?d + nx m" using k(1) by (rule block_bound_u)
    with i k(2) have "j < nat nk * ?d + nx m" by linarith
    then show ?thesis by (simp only: len nv_final)
  qed
  have "map (\<lambda>j. v_opt ! j) (map (\<lambda>k. k * ?d + nx m + i) [0..<nat nk])
        = map (\<lambda>k. block v_opt (vind_u ?p ! k) ! i) [0..<nat nk]"
  proof (rule nth_equalityI)
    fix k assume "k < length (map (\<lambda>j. v_opt ! j) (map (\<lambda>k. k * ?d + nx m + i) [0..<nat nk]))"
    then have k: "k < nat nk" by simp
    with i show "map (\<lambda>j. v_opt ! j) (map (\<lambda>k. k * ?d + nx m + i) [0..<nat nk]) ! k
          = map (\<lambda>k. block v_opt (vind_u ?p ! k) ! i) [0..<nat nk] ! k"
      by (simp add: vind_u_nth block_def)
  qed simp
  with fancy_index_ok [of "map (\<lambda>k. k * ?d + nx m + i) [0..<nat nk]" v_opt, OF bound]
  show ?thesis
    unfolding u_comp_opt_def r ixs by simp
qed

lemma tgrid_value:
  assumes "0 \<le> nk"
  shows "tgrid tf nk = map (\<lambda>k. real k * (tf / of_int nk)) [0..<nat nk + 1]"
  using assms by (simp add: tgrid_def linspace_def py_range_def nat_add_distrib)

lemma demo_nlp_2: "script demo 1 2 1 = Inr (final_nlp demo 1 2 1)"
  by (rule script_ok) simp_all

lemma demo_vind_2:
  "vind_x (final_nlp demo 1 2 1) = [[0, 1], [3, 4], [6, 7]]"
  "vind_u (final_nlp demo 1 2 1) = [[2], [5]]"
  "nv (final_nlp demo 1 2 1) = 8"
  by (simp_all add: vind_x_final vind_u_final nv_final demo_def upt_rec)

section \<open>Sizes of the constraint blocks, and the three extracted sequences\<close>

lemma x0_opt_comp: "x0_opt vx nk v_opt = x_comp_opt vx nk v_opt 0"
  by (simp add: x0_opt_def x_comp_opt_def)

lemma x1_opt_comp: "x1_opt vx nk v_opt = x_comp_opt vx nk v_opt 1"
  by (simp add: x1_opt_def x_comp_opt_def)

lemma u_opt_comp: "u_opt vu nk v_opt = u_comp_opt vu nk v_opt 0"
  by (simp add: u_opt_def u_comp_opt_def)

lemma py_index_beyond: "length xs \<le> i \<Longrightarrow> py_index xs (int i) = Inl IndexError"
  by (simp add: py_index_def)

lemma x_comp_opt_fail:
  assumes "0 \<le> nk" "nx m \<le> i"
  shows "x_comp_opt (vind_x (final_nlp m tf nk nj)) nk v_opt (int i) = Inl IndexError"
proof -
  let ?p = "final_nlp m tf nk nj"
  have r: "py_range (nk + 1) = 0 # [1..<nat nk + 1]"
    using assms(1) by (simp add: py_range_def nat_add_distrib upt_conv_Cons)
  have "py_index (vind_x ?p) (int 0) = Inr (vind_x ?p ! 0)"
    by (rule py_index_nat) (simp add: vind_x_final)
  then have v: "py_index (vind_x ?p) 0 = Inr [0..<nx m]"
    using vind_x_nth [of 0 nk m tf nj] by simp
  have "py_index [0..<nx m] (int i) = Inl IndexError"
    using assms(2) by (intro py_index_beyond) simp
  then show ?thesis
    unfolding x_comp_opt_def r by (simp add: v)
qed

lemma u_comp_opt_fail:
  assumes "1 \<le> nk" "nu m \<le> i"
  shows "u_comp_opt (vind_u (final_nlp m tf nk nj)) nk v_opt (int i) = Inl IndexError"
proof -
  let ?p = "final_nlp m tf nk nj"
  have r: "py_range nk = 0 # [1..<nat nk]"
    using assms(1) by (simp add: py_range_def upt_conv_Cons)
  have "py_index (vind_u ?p) (int 0) = Inr (vind_u ?p ! 0)"
    using assms(1) by (intro py_index_nat) (simp add: vind_u_final)
  then have v: "py_index (vind_u ?p) 0 = Inr [nx m..<nx m + nu m]"
    using vind_u_nth [of 0 nk m tf nj] assms(1) by simp
  have "py_index [nx m..<nx m + nu m] (int i) = Inl IndexError"
    using assms(2) by (intro py_index_beyond) simp
  then show ?thesis
    unfolding u_comp_opt_def r by (simp add: v)
qed

lemma wf_demo_shape: "wf_model (demo_shape a b)"
  by (simp add: wf_model_def demo_shape_def)

lemma g_length:
  assumes "wf_model m" "1 \<le> nk" "length w = nv (final_nlp m tf nk nj)"
  shows "length (init_I m (block w (vind_x (final_nlp m tf nk nj) ! 0))) = size_I m"
    and "\<And>k. k < nat nk - 1 \<Longrightarrow>
           length (vsub (fst (interval_map m tf nk nj
                                (block w (vind_x (final_nlp m tf nk nj) ! k))
                                (block w (vind_u (final_nlp m tf nk nj) ! k))))
                        (block w (vind_x (final_nlp m tf nk nj) ! Suc k))) = nx m"
    and "length (snd (nlp_eval (final_nlp m tf nk nj) w)) = size_I m + (nat nk - 1) * nx m"
proof -
  let ?p = "final_nlp m tf nk nj"
  let ?F = "interval_map m tf nk nj"
  let ?c = "\<lambda>k. vsub (fst (?F (block w (vind_x ?p ! k)) (block w (vind_u ?p ! k))))
                    (block w (vind_x ?p ! Suc k))"
  show ic: "length (init_I m (block w (vind_x ?p ! 0))) = size_I m"
    using assms(1) length_block_x [of 0 nk w m tf nj] by (simp add: wf_model_def)
  show c: "length (?c k) = nx m" if "k < nat nk - 1" for k
  proof -
    from that have k: "k \<le> nat nk" "k < nat nk" "Suc k \<le> nat nk" by simp_all
    have "length (fst (?F (block w (vind_x ?p ! k)) (block w (vind_u ?p ! k)))) = nx m"
      using assms(1) by (rule interval_map_length)
        (simp_all add: length_block_x [OF k(1)] length_block_u [OF k(2)])
    then show ?thesis
      by (simp add: length_vsub length_block_x [OF k(3)])
  qed
  have "length (concat (map ?c [0..<nat nk - 1])) = length [0..<nat nk - 1] * nx m"
    by (rule length_concat_const) (simp add: c)
  then show "length (snd (nlp_eval ?p w)) = size_I m + (nat nk - 1) * nx m"
    unfolding g_value [OF assms(2,3)] using ic by simp
qed

lemma extraction_ok:
  assumes nk: "0 \<le> nk" and len: "length v_opt = nv (final_nlp m tf nk nj)"
    and n: "2 \<le> nx m" "1 \<le> nu m"
  shows "extraction (vind_x (final_nlp m tf nk nj)) (vind_u (final_nlp m tf nk nj)) nk v_opt
         = Inr (map (\<lambda>k. block v_opt (vind_x (final_nlp m tf nk nj) ! k) ! 0) [0..<nat nk + 1],
                map (\<lambda>k. block v_opt (vind_x (final_nlp m tf nk nj) ! k) ! 1) [0..<nat nk + 1],
                map (\<lambda>k. block v_opt (vind_u (final_nlp m tf nk nj) ! k) ! 0) [0..<nat nk])"
proof -
  have i: "0 < nx m" "1 < nx m" "0 < nu m" using n by simp_all
  from x_comp_opt_ok [OF nk len i(1)] x_comp_opt_ok [OF nk len i(2)] u_comp_opt_ok [OF nk len i(3)]
  show ?thesis
    by (simp add: extraction_def x0_opt_comp x1_opt_comp u_opt_comp)
qed

lemma extraction_fail:
  assumes nk: "1 \<le> nk" and len: "length v_opt = nv (final_nlp m tf nk nj)"
    and n: "nx m < 2 \<or> nu m < 1"
  shows "extraction (vind_x (final_nlp m tf nk nj)) (vind_u (final_nlp m tf nk nj)) nk v_opt
         = Inl IndexError"
proof -
  let ?p = "final_nlp m tf nk nj"
  have nk0: "0 \<le> nk" using nk by simp
  consider "nx m = 0" | "nx m = 1" | "2 \<le> nx m" "nu m = 0"
    using n by linarith
  then show ?thesis
  proof cases
    case 1
    then have "nx m \<le> 0" by simp
    from x_comp_opt_fail [OF nk0 this, of tf nj v_opt] show ?thesis
      by (simp add: extraction_def x0_opt_comp)
  next
    case 2
    then have a: "0 < nx m" and b: "nx m \<le> 1" by simp_all
    from x_comp_opt_ok [OF nk0 len a] x_comp_opt_fail [OF nk0 b, of tf nj v_opt] show ?thesis
      by (simp add: extraction_def x0_opt_comp x1_opt_comp)
  next
    case 3
    then have a: "0 < nx m" "1 < nx m" and b: "nu m \<le> 0" by simp_all
    from x_comp_opt_ok [OF nk0 len a(1)] x_comp_opt_ok [OF nk0 len a(2)]
      u_comp_opt_fail [OF nk b, of tf nj v_opt]
    show ?thesis
      by (simp add: extraction_def x0_opt_comp x1_opt_comp u_opt_comp)
  qed
qed

section \<open>The claims\<close>

subsection \<open>Continuity constraints\<close>

text \<open>
  C1, as the code has it.  The loop guards the append by \<open>k+1 < nk\<close>, so for \<open>nk \<ge> 1\<close>
  the constraint vector is the initial condition \<open>I(x_block[0])\<close> followed by the
  continuity constraint \<open>x_end(k) - x_block[k+1]\<close> for each interval \<open>k\<close> with
  \<open>k+1 < nk\<close>, that is \<open>k = 0, ..., nk-2\<close>, every entry with bounds \<open>(0,0)\<close>.  The last
  interval \<open>k = nk-1\<close> gets no constraint: nothing ties its predicted terminal state to
  the trailing terminal-state block.
\<close>

theorem continuity_for_all_but_last_interval:
  assumes "1 \<le> nk" "nj \<noteq> 0"
  shows "\<exists>p. script m tf nk nj = Inr p \<and>
           size1 (g_expr p) = size_I m + (nat nk - 1) * nx m \<and>
           lbg p = replicate (size1 (g_expr p)) 0 \<and> ubg p = replicate (size1 (g_expr p)) 0 \<and>
           (\<forall>w. length w = nv p \<longrightarrow>
              snd (nlp_eval p w)
              = init_I m (block w (vind_x p ! 0))
                @ concat (map (\<lambda>k. vsub (fst (interval_map m tf nk nj (block w (vind_x p ! k))
                                                                        (block w (vind_u p ! k))))
                                         (block w (vind_x p ! Suc k)))
                            [0..<nat nk - 1]))"
proof (intro exI conjI allI impI)
  show "script m tf nk nj = Inr (final_nlp m tf nk nj)"
    using assms by (rule script_ok)
  show "size1 (g_expr (final_nlp m tf nk nj)) = size_I m + (nat nk - 1) * nx m"
    using assms(1) by (intro size1_g_final) simp
  show "lbg (final_nlp m tf nk nj) = replicate (size1 (g_expr (final_nlp m tf nk nj))) 0"
    by (rule lbg_final)
  show "ubg (final_nlp m tf nk nj) = replicate (size1 (g_expr (final_nlp m tf nk nj))) 0"
    by (rule ubg_final)
next
  fix w :: vec assume "length w = nv (final_nlp m tf nk nj)"
  with assms(1) show "snd (nlp_eval (final_nlp m tf nk nj) w)
      = init_I m (block w (vind_x (final_nlp m tf nk nj) ! 0))
        @ concat (map (\<lambda>k. vsub (fst (interval_map m tf nk nj
                                         (block w (vind_x (final_nlp m tf nk nj) ! k))
                                         (block w (vind_u (final_nlp m tf nk nj) ! k))))
                                 (block w (vind_x (final_nlp m tf nk nj) ! Suc k)))
                    [0..<nat nk - 1])"
    by (rule g_value)
qed

theorem continuity_for_all_but_last_interval_witness:
  "(1::int) \<le> 2 \<and> (1::int) \<noteq> 0 \<and>
   (\<exists>p. script demo 1 2 1 = Inr p \<and> size1 (g_expr p) = 4 \<and>
        lbg p = [0, 0, 0, 0] \<and> ubg p = [0, 0, 0, 0] \<and>
        (\<forall>w. length w = nv p \<longrightarrow>
           snd (nlp_eval p w)
           = init_I demo (block w (vind_x p ! 0))
             @ vsub (fst (interval_map demo 1 2 1 (block w (vind_x p ! 0)) (block w (vind_u p ! 0))))
                    (block w (vind_x p ! 1))))"
proof -
  have h: "(1::int) \<le> 2" "(1::int) \<noteq> 0" by simp_all
  have r: "replicate 4 (0::real) = [0, 0, 0, 0]" by (simp add: numeral_eq_Suc)
  from continuity_for_all_but_last_interval [OF h, of demo 1]
  obtain p where p: "script demo 1 2 1 = Inr p"
    "size1 (g_expr p) = size_I demo + (nat 2 - 1) * nx demo"
    "lbg p = replicate (size1 (g_expr p)) 0" "ubg p = replicate (size1 (g_expr p)) 0"
    "\<forall>w. length w = nv p \<longrightarrow>
       snd (nlp_eval p w)
       = init_I demo (block w (vind_x p ! 0))
         @ concat (map (\<lambda>k. vsub (fst (interval_map demo 1 2 1 (block w (vind_x p ! k))
                                                                 (block w (vind_u p ! k))))
                                  (block w (vind_x p ! Suc k)))
                     [0..<nat 2 - 1])"
    by blast
  have sz: "size1 (g_expr p) = 4" using p(2) by (simp add: demo_def)
  have b: "lbg p = [0, 0, 0, 0]" "ubg p = [0, 0, 0, 0]"
    using p(3,4) by (simp_all only: sz r)
  have "\<forall>w. length w = nv p \<longrightarrow>
       snd (nlp_eval p w)
       = init_I demo (block w (vind_x p ! 0))
         @ vsub (fst (interval_map demo 1 2 1 (block w (vind_x p ! 0)) (block w (vind_u p ! 0))))
                (block w (vind_x p ! 1))"
    using p(5) by simp
  with p(1) sz b h show ?thesis by blast
qed

text \<open>
  The claim C1 as the specification states it, with a continuity constraint for the last
  interval too, fails.  With one interval the decision vector \<open>[1, 1, 0, 5, 5]\<close> has state
  block \<open>[1, 1]\<close>, control block \<open>[0]\<close> and terminal block \<open>[5, 5]\<close>.  The NLP has the two
  initial-condition entries only, both zero there, although the interval map takes
  \<open>[1, 1]\<close> to \<open>[3/8, 3/8]\<close>, which is not the terminal block.
\<close>

theorem last_interval_unconstrained_counterexample:
  "nlp_at demo 1 1 1 [1, 1, 0, 5, 5] = Inr (43 / 48, [0, 0]) \<and>
   fst (interval_map demo 1 1 1 [1, 1] [0]) = [3 / 8, 3 / 8] \<and>
   vsub (fst (interval_map demo 1 1 1 [1, 1] [0])) [5, 5] = [- (37 / 8), - (37 / 8)]"
proof -
  let ?w = "[1, 1, 0, 5, 5] :: vec"
  have len: "length ?w = nv (final_nlp demo 1 1 1)" by (simp add: demo_vind_1)
  have J: "fst (nlp_eval (final_nlp demo 1 1 1) ?w) = 43 / 48"
    unfolding J_value [OF len] by (simp add: demo_vind_1 block_def demo_interval_1)
  have b0: "block ?w (vind_x (final_nlp demo 1 1 1) ! 0) = [1, 1]"
    by (simp add: demo_vind_1 block_def)
  have i0: "init_I demo [1, 1] = [0, 0]" by (simp add: demo_def)
  have "snd (nlp_eval (final_nlp demo 1 1 1) ?w)
        = init_I demo (block ?w (vind_x (final_nlp demo 1 1 1) ! 0))"
    by (subst g_value [OF _ len]) simp_all
  then have g: "snd (nlp_eval (final_nlp demo 1 1 1) ?w) = [0, 0]"
    by (simp only: b0 i0)
  have "nlp_eval (final_nlp demo 1 1 1) ?w = (43 / 48, [0, 0])"
    using J g by (simp add: prod_eq_iff)
  then show ?thesis
    by (simp add: nlp_at_def demo_nlp_1 demo_interval_1 vsub_def)
qed

subsection \<open>Shape of the constraint vector\<close>

text \<open>
  C2, as the code has it.  For a model that satisfies the shape invariant and for
  \<open>nk \<ge> 1\<close>: the constraint vector is the block \<open>I(x_block[0])\<close>, placed first, followed by
  \<open>nk - 1\<close> continuity blocks of size \<open>nx\<close> each, and the lower and the upper bound of
  every entry are \<open>0\<close>.  The first block has the size of \<open>I\<close>, which the script takes from
  the model and never compares with \<open>nx\<close>; the length is the size of \<open>I\<close> plus
  \<open>(nk - 1) nx\<close>, which is \<open>nx nk\<close> when \<open>I\<close> has \<open>nx\<close> entries.
\<close>

theorem constraint_blocks_and_sizes:
  assumes "wf_model m" "1 \<le> nk" "nj \<noteq> 0"
  shows "\<exists>p. script m tf nk nj = Inr p \<and>
           size1 (g_expr p) = size_I m + (nat nk - 1) * nx m \<and>
           lbg p = replicate (size_I m + (nat nk - 1) * nx m) 0 \<and>
           ubg p = replicate (size_I m + (nat nk - 1) * nx m) 0 \<and>
           (size_I m = nx m \<longrightarrow> size1 (g_expr p) = nx m * nat nk) \<and>
           (\<forall>w. length w = nv p \<longrightarrow>
              (\<exists>ic cs. ic = init_I m (block w (vind_x p ! 0)) \<and>
                 cs = map (\<lambda>k. vsub (fst (interval_map m tf nk nj (block w (vind_x p ! k))
                                                                   (block w (vind_u p ! k))))
                                     (block w (vind_x p ! Suc k)))
                        [0..<nat nk - 1] \<and>
                 snd (nlp_eval p w) = ic @ concat cs \<and>
                 length ic = size_I m \<and> length cs = nat nk - 1 \<and>
                 (\<forall>c \<in> set cs. length c = nx m) \<and>
                 length (snd (nlp_eval p w)) = size_I m + (nat nk - 1) * nx m))"
proof -
  let ?p = "final_nlp m tf nk nj"
  let ?F = "interval_map m tf nk nj"
  have nk0: "0 \<le> nk" using assms(2) by simp
  have N: "nx m + (nat nk - 1) * nx m = nx m * nat nk"
  proof -
    from assms(2) obtain n where "nat nk = Suc n" by (cases "nat nk") simp_all
    then show ?thesis by simp
  qed
  have ok: "script m tf nk nj = Inr ?p" using assms(2,3) by (rule script_ok)
  have sz: "size1 (g_expr ?p) = size_I m + (nat nk - 1) * nx m"
    using nk0 by (rule size1_g_final)
  have lb: "lbg ?p = replicate (size_I m + (nat nk - 1) * nx m) 0"
    "ubg ?p = replicate (size_I m + (nat nk - 1) * nx m) 0"
    by (simp_all only: lbg_final ubg_final sz)
  have eq: "size_I m = nx m \<longrightarrow> size1 (g_expr ?p) = nx m * nat nk"
    using sz N by simp
  have val: "\<exists>ic cs. ic = init_I m (block w (vind_x ?p ! 0)) \<and>
                 cs = map (\<lambda>k. vsub (fst (?F (block w (vind_x ?p ! k)) (block w (vind_u ?p ! k))))
                                     (block w (vind_x ?p ! Suc k)))
                        [0..<nat nk - 1] \<and>
                 snd (nlp_eval ?p w) = ic @ concat cs \<and>
                 length ic = size_I m \<and> length cs = nat nk - 1 \<and>
                 (\<forall>c \<in> set cs. length c = nx m) \<and>
                 length (snd (nlp_eval ?p w)) = size_I m + (nat nk - 1) * nx m"
    if len: "length w = nv ?p" for w
  proof -
    have g: "snd (nlp_eval ?p w)
             = init_I m (block w (vind_x ?p ! 0))
               @ concat (map (\<lambda>k. vsub (fst (?F (block w (vind_x ?p ! k)) (block w (vind_u ?p ! k))))
                                        (block w (vind_x ?p ! Suc k))) [0..<nat nk - 1])"
      using assms(2) len by (rule g_value)
    note l = g_length [OF assms(1,2) len]
    from g l(1) l(3) show ?thesis by (simp add: l(2))
  qed
  from ok sz lb eq val show ?thesis by blast
qed

theorem constraint_blocks_and_sizes_witness:
  "wf_model demo \<and> (1::int) \<le> 2 \<and> (1::int) \<noteq> 0 \<and>
   (\<exists>p. script demo 1 2 1 = Inr p \<and> size1 (g_expr p) = 4 \<and>
        lbg p = [0, 0, 0, 0] \<and> ubg p = [0, 0, 0, 0] \<and>
        (\<forall>w. length w = nv p \<longrightarrow> length (snd (nlp_eval p w)) = 4))"
proof -
  have h: "(1::int) \<le> 2" "(1::int) \<noteq> 0" by simp_all
  have n: "size_I demo + (nat 2 - 1) * nx demo = 4" by (simp add: demo_def)
  have r: "replicate 4 (0::real) = [0, 0, 0, 0]" by (simp add: numeral_eq_Suc)
  from constraint_blocks_and_sizes [OF wf_demo h, of 1]
  obtain p where "script demo 1 2 1 = Inr p"
    "size1 (g_expr p) = size_I demo + (nat 2 - 1) * nx demo"
    "lbg p = replicate (size_I demo + (nat 2 - 1) * nx demo) 0"
    "ubg p = replicate (size_I demo + (nat 2 - 1) * nx demo) 0"
    "\<forall>w. length w = nv p \<longrightarrow>
       length (snd (nlp_eval p w)) = size_I demo + (nat 2 - 1) * nx demo"
    by blast
  then show ?thesis using wf_demo h unfolding n r by blast
qed

text \<open>
  The claim C2 as the specification states it, with an initial-condition block of size
  \<open>nx\<close> and \<open>nx nk\<close> constraints in all, fails for a model with two states and one
  initial-condition residual: with two intervals the constraint vector has three entries,
  not four.
\<close>

theorem one_residual_three_rows_counterexample:
  "wf_model (demo_shape 2 1) \<and> nx (demo_shape 2 1) = 2 \<and>
   script (demo_shape 2 1) 1 2 1 = Inr (final_nlp (demo_shape 2 1) 1 2 1) \<and>
   size1 (g_expr (final_nlp (demo_shape 2 1) 1 2 1)) = 3 \<and>
   lbg (final_nlp (demo_shape 2 1) 1 2 1) = [0, 0, 0] \<and>
   ubg (final_nlp (demo_shape 2 1) 1 2 1) = [0, 0, 0] \<and>
   nv (final_nlp (demo_shape 2 1) 1 2 1) = 8 \<and>
   length (snd (nlp_eval (final_nlp (demo_shape 2 1) 1 2 1) [1, 1, 0, 1, 1, 0, 1, 1])) = 3 \<and>
   nx (demo_shape 2 1) * nat 2 = 4"
proof -
  let ?m = "demo_shape 2 1"
  let ?p = "final_nlp ?m 1 2 1"
  have ok: "script ?m 1 2 1 = Inr ?p" by (rule script_ok) simp_all
  have sz: "size1 (g_expr ?p) = 3"
    by (subst size1_g_final) (simp_all add: demo_shape_def)
  have r: "replicate 3 (0::real) = [0, 0, 0]" by (simp add: numeral_eq_Suc)
  have b: "lbg ?p = [0, 0, 0]" "ubg ?p = [0, 0, 0]"
    by (simp_all only: lbg_final ubg_final sz r)
  have n: "nv ?p = 8" by (simp add: nv_final demo_shape_def)
  have len: "length [1, 1, 0, 1, 1, 0, 1, 1 :: real] = nv ?p" unfolding n by simp
  have one: "(1::int) \<le> 2" by simp
  have "length (snd (nlp_eval ?p [1, 1, 0, 1, 1, 0, 1, 1])) = size_I ?m + (nat 2 - 1) * nx ?m"
    using wf_demo_shape one len by (rule g_length(3))
  then have l: "length (snd (nlp_eval ?p [1, 1, 0, 1, 1, 0, 1, 1])) = 3"
    by (simp add: demo_shape_def)
  show ?thesis
    using ok sz b n l wf_demo_shape [of 2 1] by (simp add: demo_shape_def)
qed

subsection \<open>Layout of the decision vector\<close>

text \<open>
  C3.  For \<open>nk \<ge> 1\<close>, \<open>nx \<ge> 1\<close> and \<open>nu \<ge> 1\<close> the script returns a decision vector of
  length \<open>nv = (nk+1) nx + nk nu\<close> and an index map of \<open>nk+1\<close> state ranges of length
  \<open>nx\<close> and \<open>nk\<close> control ranges of length \<open>nu\<close>.  Every range is contiguous; the
  ranges, concatenated in the order of allocation, are \<open>0, 1, ..., nv-1\<close>; and every
  index below \<open>nv\<close> lies in exactly one range.
\<close>

theorem layout_partitions_indices:
  assumes "1 \<le> nk" "1 \<le> nx m" "1 \<le> nu m" "nj \<noteq> 0"
  shows "\<exists>p. script m tf nk nj = Inr p \<and>
           nv p = (nat nk + 1) * nx m + nat nk * nu m \<and>
           length (vind_x p) = nat nk + 1 \<and> length (vind_u p) = nat nk \<and>
           (\<forall>r \<in> set (vind_x p). length r = nx m \<and> r = [hd r..<hd r + nx m]) \<and>
           (\<forall>r \<in> set (vind_u p). length r = nu m \<and> r = [hd r..<hd r + nu m]) \<and>
           set (ranges_in_order (vind_x p) (vind_u p) (nat nk)) = set (vind_x p) \<union> set (vind_u p) \<and>
           concat (ranges_in_order (vind_x p) (vind_u p) (nat nk)) = [0..<nv p] \<and>
           (\<forall>i<nv p. \<exists>!r. r \<in> set (vind_x p) \<union> set (vind_u p) \<and> i \<in> set r)"
proof -
  let ?p = "final_nlp m tf nk nj"
  have ok: "script m tf nk nj = Inr ?p"
    using assms(1,4) by (rule script_ok)
  have n: "nv ?p = (nat nk + 1) * nx m + nat nk * nu m"
    by (simp add: nv_final algebra_simps)
  have lx: "length (vind_x ?p) = nat nk + 1" by (simp add: vind_x_final)
  have lu: "length (vind_u ?p) = nat nk" by (simp add: vind_u_final)
  have cx: "\<forall>r \<in> set (vind_x ?p). length r = nx m \<and> r = [hd r..<hd r + nx m]"
    using assms(2) unfolding vind_x_final by (auto simp del: upt_Suc)
  have cu: "\<forall>r \<in> set (vind_u ?p). length r = nu m \<and> r = [hd r..<hd r + nu m]"
    using assms(3) unfolding vind_u_final by (auto simp del: upt_Suc)
  have u: "\<forall>i<nv ?p. \<exists>!r. r \<in> set (vind_x ?p) \<union> set (vind_u ?p) \<and> i \<in> set r"
    using unique_range [OF ranges_cover [of m tf nk nj]] unfolding ranges_set by blast
  from ok n lx lu cx cu u ranges_set [of m tf nk nj] ranges_cover [of m tf nk nj]
  show ?thesis by blast
qed

theorem layout_partitions_indices_witness:
  "(1::int) \<le> 2 \<and> 1 \<le> nx demo \<and> 1 \<le> nu demo \<and> (1::int) \<noteq> 0 \<and>
   (\<exists>p. script demo 1 2 1 = Inr p \<and> nv p = 8 \<and>
        length (vind_x p) = 3 \<and> length (vind_u p) = 2 \<and>
        concat (ranges_in_order (vind_x p) (vind_u p) 2) = [0..<8])"
proof -
  have h: "(1::int) \<le> 2" "1 \<le> nx demo" "1 \<le> nu demo" "(1::int) \<noteq> 0"
    by (simp_all add: demo_def)
  from layout_partitions_indices [OF h, of 1]
  obtain p where p: "script demo 1 2 1 = Inr p"
    "nv p = (nat 2 + 1) * nx demo + nat 2 * nu demo"
    "length (vind_x p) = nat 2 + 1" "length (vind_u p) = nat 2"
    "concat (ranges_in_order (vind_x p) (vind_u p) (nat 2)) = [0..<nv p]"
    by blast
  have "nv p = 8" using p(2) by (simp add: demo_def)
  with p h show ?thesis by auto
qed

subsection \<open>The interval map\<close>

text \<open>
  C4.  With \<open>dt = tf/nk\<close> and \<open>h = dt/nj\<close> as the script computes them, the interval map
  is the specification's recursion: it starts from \<open>x_0 = x_start\<close> and \<open>L_0 = 0\<close>, takes
  \<open>nj\<close> sequential sub-steps, each the classical RK4 update of the state and of the
  quadrature with the four stage evaluations \<open>k1, ..., k4\<close> of \<open>f\<close> and of \<open>L\<close>, and
  returns \<open>(x_nj, L_nj)\<close>.
\<close>

theorem integrator_is_rk4:
  assumes "step_sizes tf nk nj = Inr (dt, h)"
  shows "dt = tf / of_int nk \<and> h = dt / of_int nj \<and>
         integrator (ode_fcn f L) h nj x_start u = rk4_seq_spec f L h u x_start (nat nj)"
  using assms
  by (auto simp add: step_sizes_def Let_def integrator_def py_range_def rk4_loop_upt
           split: if_splits)

theorem integrator_is_rk4_witness:
  "step_sizes 1 1 2 = Inr (1, 1 / 2) \<and>
   integrator (ode_fcn (ode_f demo) (quad_L demo)) (1 / 2) 2 [1, 1] [0]
     = ([54289 / 147456, 54289 / 147456], 784586305 / 905969664)"
proof -
  have s: "step_sizes 1 1 2 = Inr (1, 1 / 2)"
    by (simp add: step_sizes_def)
  have two: "nat 2 = Suc (Suc 0)" by simp
  from integrator_is_rk4 [OF s, of "ode_f demo" "quad_L demo" "[1, 1]" "[0]"] s
  show ?thesis
    unfolding two
    by (simp add: rk4_step_spec_def demo_def vadd_def smul_def Let_def)
qed

subsection \<open>The objective\<close>

text \<open>
  C5.  For \<open>nk \<ge> 1\<close> the script returns an NLP whose objective, at every decision vector
  of length \<open>nv\<close>, is the sum accumulated from \<open>J = 0\<close> over the intervals
  \<open>k = 0, ..., nk-1\<close> of the cost increment that the one interval map returns on the
  \<open>k\<close>-th state block and the \<open>k\<close>-th control block; nothing else enters it.
\<close>

theorem objective_is_sum_of_interval_costs:
  assumes "1 \<le> nk" "nj \<noteq> 0"
  shows "\<exists>p. script m tf nk nj = Inr p \<and>
           (\<forall>w. length w = nv p \<longrightarrow>
              fst (nlp_eval p w)
              = foldl (\<lambda>J k. J + snd (interval_map m tf nk nj (block w (vind_x p ! k))
                                                               (block w (vind_u p ! k))))
                  0 [0..<nat nk])"
proof (intro exI conjI allI impI)
  show "script m tf nk nj = Inr (final_nlp m tf nk nj)"
    using assms by (rule script_ok)
next
  fix w :: vec assume "length w = nv (final_nlp m tf nk nj)"
  then show "fst (nlp_eval (final_nlp m tf nk nj) w)
        = foldl (\<lambda>J k. J + snd (interval_map m tf nk nj
                                    (block w (vind_x (final_nlp m tf nk nj) ! k))
                                    (block w (vind_u (final_nlp m tf nk nj) ! k))))
            0 [0..<nat nk]"
    by (simp only: J_value foldl_sum)
qed

theorem objective_is_sum_of_interval_costs_witness:
  "(1::int) \<le> 1 \<and> (1::int) \<noteq> 0 \<and>
   (\<exists>p. script demo 1 1 1 = Inr p \<and> length [1, 1, 0, 5, 5 :: real] = nv p \<and>
        fst (nlp_eval p [1, 1, 0, 5, 5]) = 43 / 48) \<and>
   snd (interval_map demo 1 1 1 [1, 1] [0]) = 43 / 48"
proof -
  let ?w = "[1, 1, 0, 5, 5] :: vec"
  have h: "(1::int) \<le> 1" "(1::int) \<noteq> 0" by simp_all
  from objective_is_sum_of_interval_costs [OF h, of demo 1]
  obtain p where p: "script demo 1 1 1 = Inr p"
    and J: "\<And>w. length w = nv p \<Longrightarrow>
              fst (nlp_eval p w)
              = foldl (\<lambda>J k. J + snd (interval_map demo 1 1 1 (block w (vind_x p ! k))
                                                                (block w (vind_u p ! k))))
                  0 [0..<nat 1]"
    by blast
  have pe: "p = final_nlp demo 1 1 1" using p demo_nlp_1 by simp
  have len: "length ?w = nv p" by (simp add: pe demo_vind_1)
  have "fst (nlp_eval p ?w) = 43 / 48"
    unfolding J [OF len] by (simp add: pe demo_vind_1 block_def demo_interval_1)
  with p len h show ?thesis by (simp add: demo_interval_1)
qed

subsection \<open>Bounds and initial guess\<close>

text \<open>
  C6.  For a model that satisfies the shape invariant, \<open>lbv\<close>, \<open>ubv\<close> and \<open>v0\<close> have
  length \<open>nv\<close>; on each of the \<open>nk+1\<close> state ranges of the index map they hold
  \<open>lbx\<close>, \<open>ubx\<close> and \<open>x0\<close>, and on each of the \<open>nk\<close> control ranges \<open>lbu\<close>, \<open>ubu\<close>
  and \<open>u0\<close>.
\<close>

theorem bounds_and_guess_per_block:
  assumes "wf_model m" "1 \<le> nk" "nj \<noteq> 0"
  shows "\<exists>p. script m tf nk nj = Inr p \<and>
           length (lbv p) = nv p \<and> length (ubv p) = nv p \<and> length (v0 p) = nv p \<and>
           length (vind_x p) = nat nk + 1 \<and> length (vind_u p) = nat nk \<and>
           (\<forall>k\<le>nat nk. block (lbv p) (vind_x p ! k) = lbx m \<and>
                         block (ubv p) (vind_x p ! k) = ubx m \<and>
                         block (v0 p) (vind_x p ! k) = x0 m) \<and>
           (\<forall>k<nat nk. block (lbv p) (vind_u p ! k) = lbu m \<and>
                        block (ubv p) (vind_u p ! k) = ubu m \<and>
                        block (v0 p) (vind_u p ! k) = u0 m)"
proof -
  let ?p = "final_nlp m tf nk nj"
  from assms(1) have len:
    "length (lbx m) = nx m" "length (ubx m) = nx m" "length (x0 m) = nx m"
    "length (lbu m) = nu m" "length (ubu m) = nu m" "length (u0 m) = nu m"
    by (simp_all add: wf_model_def)
  have ok: "script m tf nk nj = Inr ?p"
    using assms(2,3) by (rule script_ok)
  have l: "length (lbv ?p) = nv ?p" "length (ubv ?p) = nv ?p" "length (v0 ?p) = nv ?p"
    unfolding lbv_final ubv_final v0_final nv_final
    by (rule pattern_length; rule len)+
  have lx: "length (vind_x ?p) = nat nk + 1" by (simp add: vind_x_final)
  have lu: "length (vind_u ?p) = nat nk" by (simp add: vind_u_final)
  have x: "\<forall>k\<le>nat nk. block (lbv ?p) (vind_x ?p ! k) = lbx m \<and>
                        block (ubv ?p) (vind_x ?p ! k) = ubx m \<and>
                        block (v0 ?p) (vind_x ?p ! k) = x0 m"
    unfolding lbv_final ubv_final v0_final
    by (intro allI impI conjI pattern_block_x len)
  have u: "\<forall>k<nat nk. block (lbv ?p) (vind_u ?p ! k) = lbu m \<and>
                       block (ubv ?p) (vind_u ?p ! k) = ubu m \<and>
                       block (v0 ?p) (vind_u ?p ! k) = u0 m"
    unfolding lbv_final ubv_final v0_final
    by (intro allI impI conjI pattern_block_u len)
  from ok l lx lu x u show ?thesis by blast
qed

theorem bounds_and_guess_per_block_witness:
  "wf_model demo \<and> (1::int) \<le> 2 \<and> (1::int) \<noteq> 0 \<and>
   (\<exists>p. script demo 1 2 1 = Inr p \<and> length (v0 p) = nv p \<and>
        block (lbv p) (vind_x p ! 2) = [0, 0] \<and> block (ubv p) (vind_u p ! 1) = [1] \<and>
        block (v0 p) (vind_x p ! 0) = [1, 1])"
proof -
  have h: "(1::int) \<le> 2" "(1::int) \<noteq> 0" by simp_all
  from bounds_and_guess_per_block [OF wf_demo h, of 1]
  obtain p where p: "script demo 1 2 1 = Inr p" "length (v0 p) = nv p"
    "\<forall>k\<le>nat 2. block (lbv p) (vind_x p ! k) = lbx demo \<and>
                 block (ubv p) (vind_x p ! k) = ubx demo \<and>
                 block (v0 p) (vind_x p ! k) = x0 demo"
    "\<forall>k<nat 2. block (lbv p) (vind_u p ! k) = lbu demo \<and>
                block (ubv p) (vind_u p ! k) = ubu demo \<and>
                block (v0 p) (vind_u p ! k) = u0 demo"
    by blast
  from p(3) have "block (lbv p) (vind_x p ! 2) = lbx demo" "block (v0 p) (vind_x p ! 0) = x0 demo"
    by simp_all
  moreover from p(4) have "block (ubv p) (vind_u p ! 1) = ubu demo" by simp
  ultimately show ?thesis using p(1,2) wf_demo by (auto simp add: demo_def)
qed

subsection \<open>The terminal-state block\<close>

text \<open>
  C7.  The objective and the constraints do not read the trailing terminal-state block:
  two decision vectors of length \<open>nv\<close> that agree at every index outside the index range
  of that block give the same objective value and the same constraint values.  What the
  NLP holds for that block are the box bounds \<open>lbx\<close> and \<open>ubx\<close>.
\<close>

theorem terminal_block_only_box_bounded:
  assumes "wf_model m" "1 \<le> nk" "nj \<noteq> 0"
  shows "\<exists>p. script m tf nk nj = Inr p \<and>
           (\<forall>w w'. length w = nv p \<and> length w' = nv p \<and>
                    (\<forall>i<nv p. i \<notin> set (vind_x p ! nat nk) \<longrightarrow> w ! i = w' ! i)
                    \<longrightarrow> nlp_eval p w = nlp_eval p w') \<and>
           block (lbv p) (vind_x p ! nat nk) = lbx m \<and>
           block (ubv p) (vind_x p ! nat nk) = ubx m"
proof -
  let ?p = "final_nlp m tf nk nj"
  let ?F = "interval_map m tf nk nj"
  have ok: "script m tf nk nj = Inr ?p" using assms(2,3) by (rule script_ok)
  from assms(1) have len: "length (lbx m) = nx m" "length (ubx m) = nx m"
    "length (lbu m) = nu m" "length (ubu m) = nu m"
    by (simp_all add: wf_model_def)
  have lb: "block (lbv ?p) (vind_x ?p ! nat nk) = lbx m"
    unfolding lbv_final by (rule pattern_block_x) (simp_all add: len)
  have ub: "block (ubv ?p) (vind_x ?p ! nat nk) = ubx m"
    unfolding ubv_final by (rule pattern_block_x) (simp_all add: len)
  have ind: "nlp_eval ?p w = nlp_eval ?p w'"
    if w: "length w = nv ?p" and w': "length w' = nv ?p"
      and agree: "\<forall>i<nv ?p. i \<notin> set (vind_x ?p ! nat nk) \<longrightarrow> w ! i = w' ! i"
    for w w' :: vec
  proof -
    from agree have a: "\<And>i. i < nv ?p \<Longrightarrow> i \<notin> set (vind_x ?p ! nat nk) \<Longrightarrow> w ! i = w' ! i"
      by blast
    have x: "block w (vind_x ?p ! k) = block w' (vind_x ?p ! k)" if "k < nat nk" for k
      using that a by (rule agree_x)
    have u: "block w (vind_u ?p ! k) = block w' (vind_u ?p ! k)" if "k < nat nk" for k
      using that a by (rule agree_u)
    have "fst (nlp_eval ?p w) = fst (nlp_eval ?p w')"
      unfolding J_value [OF w] J_value [OF w']
      by (rule sum.cong) (simp_all add: x u)
    moreover have "snd (nlp_eval ?p w) = snd (nlp_eval ?p w')"
    proof -
      have 0: "block w (vind_x ?p ! 0) = block w' (vind_x ?p ! 0)"
        using assms(2) by (intro x) simp
      have "map (\<lambda>k. vsub (fst (?F (block w (vind_x ?p ! k)) (block w (vind_u ?p ! k))))
                          (block w (vind_x ?p ! Suc k))) [0..<nat nk - 1]
            = map (\<lambda>k. vsub (fst (?F (block w' (vind_x ?p ! k)) (block w' (vind_u ?p ! k))))
                            (block w' (vind_x ?p ! Suc k))) [0..<nat nk - 1]"
      proof (rule map_cong)
        fix k assume "k \<in> set [0..<nat nk - 1]"
        then have k: "k < nat nk" "Suc k < nat nk" by simp_all
        show "vsub (fst (?F (block w (vind_x ?p ! k)) (block w (vind_u ?p ! k))))
                   (block w (vind_x ?p ! Suc k))
              = vsub (fst (?F (block w' (vind_x ?p ! k)) (block w' (vind_u ?p ! k))))
                     (block w' (vind_x ?p ! Suc k))"
          by (simp only: x [OF k(1)] x [OF k(2)] u [OF k(1)])
      qed simp
      then show ?thesis
        unfolding g_value [OF assms(2) w] g_value [OF assms(2) w'] by (simp only: 0)
    qed
    ultimately show ?thesis by (simp add: prod_eq_iff)
  qed
  from ok ind lb ub show ?thesis by blast
qed

theorem terminal_block_only_box_bounded_witness:
  "wf_model demo \<and> (1::int) \<le> 1 \<and> (1::int) \<noteq> 0 \<and>
   nlp_at demo 1 1 1 [1, 1, 0, 5, 5] = nlp_at demo 1 1 1 [1, 1, 0, - 3, 7]"
proof -
  have h: "(1::int) \<le> 1" "(1::int) \<noteq> 0" by simp_all
  from terminal_block_only_box_bounded [OF wf_demo h, of 1]
  obtain p where p: "script demo 1 1 1 = Inr p"
    and ind: "\<And>w w'. length w = nv p \<and> length w' = nv p \<and>
                (\<forall>i<nv p. i \<notin> set (vind_x p ! nat 1) \<longrightarrow> w ! i = w' ! i)
                \<Longrightarrow> nlp_eval p w = nlp_eval p w'"
    by blast
  have pe: "p = final_nlp demo 1 1 1" using p demo_nlp_1 by simp
  have small: "i = 0 \<or> i = 1 \<or> i = 2" if "i < 5" "i \<noteq> 3" "i \<noteq> 4" for i :: nat
    using that by arith
  have "nlp_eval p [1, 1, 0, 5, 5] = nlp_eval p [1, 1, 0, - 3, 7]"
  proof (rule ind, intro conjI allI impI)
    show "length [1, 1, 0, 5, 5 :: real] = nv p" by (simp add: pe demo_vind_1)
    show "length [1, 1, 0, - 3, 7 :: real] = nv p" by (simp add: pe demo_vind_1)
    fix i assume "i < nv p" "i \<notin> set (vind_x p ! nat 1)"
    then have "i < 5" "i \<noteq> 3" "i \<noteq> 4" by (simp_all add: pe demo_vind_1)
    from small [OF this] show "[1, 1, 0, 5, 5 :: real] ! i = [1, 1, 0, - 3, 7] ! i"
      by auto
  qed
  then show ?thesis using wf_demo p by (simp add: nlp_at_def)
qed

subsection \<open>Extraction of the trajectories\<close>

text \<open>
  C8, as the code has it.  Lines 218-220 extract three sequences and no more.  From a
  decision vector of length \<open>nv\<close> and the index map of a model with at least two states
  and one control, they return for the state components \<open>0\<close> and \<open>1\<close> the \<open>nk+1\<close> values
  that are the entries \<open>0\<close> and \<open>1\<close> of the state blocks \<open>0, ..., nk\<close> in that order, and
  for the control component \<open>0\<close> the \<open>nk\<close> values that are the entries \<open>0\<close> of the control
  blocks.  Every sample is an entry of the decision vector itself, and the time grid is
  \<open>0, dt, 2 dt, ..., nk dt = tf\<close> with \<open>dt = tf/nk\<close>.  With fewer than two states or no
  control the extraction ends in an \<open>IndexError\<close>; state components from \<open>2\<close> on and
  control components from \<open>1\<close> on are not extracted.
\<close>

theorem extraction_of_components_0_1_and_control_0:
  assumes "1 \<le> nk" "nj \<noteq> 0"
  shows "\<exists>p. script m tf nk nj = Inr p \<and>
           (\<forall>v_opt. length v_opt = nv p \<longrightarrow>
              (2 \<le> nx m \<and> 1 \<le> nu m \<longrightarrow>
                 extraction (vind_x p) (vind_u p) nk v_opt
                 = Inr (map (\<lambda>k. block v_opt (vind_x p ! k) ! 0) [0..<nat nk + 1],
                        map (\<lambda>k. block v_opt (vind_x p ! k) ! 1) [0..<nat nk + 1],
                        map (\<lambda>k. block v_opt (vind_u p ! k) ! 0) [0..<nat nk])) \<and>
              (nx m < 2 \<or> nu m < 1 \<longrightarrow>
                 extraction (vind_x p) (vind_u p) nk v_opt = Inl IndexError) \<and>
              (\<forall>k\<le>nat nk. \<forall>i<nx m. block v_opt (vind_x p ! k) ! i
                                       = v_opt ! (k * (nx m + nu m) + i)) \<and>
              (\<forall>k<nat nk. \<forall>i<nu m. block v_opt (vind_u p ! k) ! i
                                      = v_opt ! (k * (nx m + nu m) + nx m + i))) \<and>
           tgrid tf nk = map (\<lambda>k. real k * (tf / of_int nk)) [0..<nat nk + 1] \<and>
           length (tgrid tf nk) = nat nk + 1 \<and> tgrid tf nk ! nat nk = tf"
proof -
  let ?p = "final_nlp m tf nk nj"
  have nk0: "0 \<le> nk" using assms(1) by simp
  have ok: "script m tf nk nj = Inr ?p" using assms by (rule script_ok)
  have t: "tgrid tf nk = map (\<lambda>k. real k * (tf / of_int nk)) [0..<nat nk + 1]"
    using nk0 by (rule tgrid_value)
  have ex: "(2 \<le> nx m \<and> 1 \<le> nu m \<longrightarrow>
               extraction (vind_x ?p) (vind_u ?p) nk v_opt
               = Inr (map (\<lambda>k. block v_opt (vind_x ?p ! k) ! 0) [0..<nat nk + 1],
                      map (\<lambda>k. block v_opt (vind_x ?p ! k) ! 1) [0..<nat nk + 1],
                      map (\<lambda>k. block v_opt (vind_u ?p ! k) ! 0) [0..<nat nk])) \<and>
            (nx m < 2 \<or> nu m < 1 \<longrightarrow>
               extraction (vind_x ?p) (vind_u ?p) nk v_opt = Inl IndexError) \<and>
            (\<forall>k\<le>nat nk. \<forall>i<nx m. block v_opt (vind_x ?p ! k) ! i
                                     = v_opt ! (k * (nx m + nu m) + i)) \<and>
            (\<forall>k<nat nk. \<forall>i<nu m. block v_opt (vind_u ?p ! k) ! i
                                    = v_opt ! (k * (nx m + nu m) + nx m + i))"
    if len: "length v_opt = nv ?p" for v_opt
  proof (intro conjI allI impI)
    assume "2 \<le> nx m \<and> 1 \<le> nu m"
    then have "2 \<le> nx m" "1 \<le> nu m" by simp_all
    with nk0 len show "extraction (vind_x ?p) (vind_u ?p) nk v_opt
               = Inr (map (\<lambda>k. block v_opt (vind_x ?p ! k) ! 0) [0..<nat nk + 1],
                      map (\<lambda>k. block v_opt (vind_x ?p ! k) ! 1) [0..<nat nk + 1],
                      map (\<lambda>k. block v_opt (vind_u ?p ! k) ! 0) [0..<nat nk])"
      by (rule extraction_ok)
  next
    assume "nx m < 2 \<or> nu m < 1"
    with assms(1) len show "extraction (vind_x ?p) (vind_u ?p) nk v_opt = Inl IndexError"
      by (rule extraction_fail)
  next
    fix k i assume "k \<le> nat nk" "i < nx m"
    then show "block v_opt (vind_x ?p ! k) ! i = v_opt ! (k * (nx m + nu m) + i)"
      by (simp add: vind_x_nth block_def)
  next
    fix k i assume "k < nat nk" "i < nu m"
    then show "block v_opt (vind_u ?p ! k) ! i = v_opt ! (k * (nx m + nu m) + nx m + i)"
      by (simp add: vind_u_nth block_def)
  qed
  have tl: "length (tgrid tf nk) = nat nk + 1" unfolding t by simp
  have "[0..<nat nk + 1] ! nat nk = nat nk" by (subst nth_upt) simp_all
  then have "tgrid tf nk ! nat nk = real (nat nk) * (tf / of_int nk)"
    unfolding t by (subst nth_map) simp_all
  also have "\<dots> = tf" using assms(1) by simp
  finally have te: "tgrid tf nk ! nat nk = tf" .
  from ok ex t tl te show ?thesis by blast
qed

theorem extraction_of_components_0_1_and_control_0_witness:
  "(1::int) \<le> 2 \<and> (1::int) \<noteq> 0 \<and>
   (\<exists>p. script demo 1 2 1 = Inr p \<and> length [1, 2, 3, 4, 5, 6, 7, 8 :: real] = nv p \<and>
        extraction (vind_x p) (vind_u p) 2 [1, 2, 3, 4, 5, 6, 7, 8]
        = Inr ([1, 4, 7], [2, 5, 8], [3, 6])) \<and>
   tgrid 1 2 = [0, 1 / 2, 1]"
proof -
  let ?v = "[1, 2, 3, 4, 5, 6, 7, 8] :: vec"
  have h: "(1::int) \<le> 2" "(1::int) \<noteq> 0" by simp_all
  have n: "2 \<le> nx demo \<and> 1 \<le> nu demo" by (simp add: demo_def)
  from extraction_of_components_0_1_and_control_0 [OF h, of demo 1]
  obtain p where p: "script demo 1 2 1 = Inr p"
    and ex: "\<And>v_opt. length v_opt = nv p \<Longrightarrow>
       (2 \<le> nx demo \<and> 1 \<le> nu demo \<longrightarrow>
          extraction (vind_x p) (vind_u p) 2 v_opt
          = Inr (map (\<lambda>k. block v_opt (vind_x p ! k) ! 0) [0..<nat 2 + 1],
                 map (\<lambda>k. block v_opt (vind_x p ! k) ! 1) [0..<nat 2 + 1],
                 map (\<lambda>k. block v_opt (vind_u p ! k) ! 0) [0..<nat 2]))"
    and t: "tgrid 1 2 = map (\<lambda>k. real k * (1 / of_int 2)) [0..<nat 2 + 1]"
    by blast
  have pe: "p = final_nlp demo 1 2 1" using p demo_nlp_2 by simp
  have len: "length ?v = nv p" by (simp add: pe demo_vind_2)
  have three: "[0..<3] = [0, 1, 2::nat]" "[0..<2] = [0, 1::nat]" by (simp_all add: upt_rec)
  from ex [OF len] n have
    "extraction (vind_x p) (vind_u p) 2 ?v = Inr ([1, 4, 7], [2, 5, 8], [3, 6])"
    by (simp add: three pe demo_vind_2 block_def)
  moreover have "tgrid 1 2 = [0, 1 / 2, 1]" unfolding t by (simp add: three)
  ultimately show ?thesis using p len h by blast
qed

text \<open>
  The claim C8 as the specification states it, a sequence for each state component and
  each control component, fails.  With three states the entries \<open>12, 22, 32\<close> of the third
  state component are in none of the three sequences.  With one state line 219 raises
  an \<open>IndexError\<close>, and the extraction yields nothing.
\<close>

theorem components_beyond_the_first_two_counterexample:
  "script (demo_shape 3 3) 1 2 1 = Inr (final_nlp (demo_shape 3 3) 1 2 1) \<and>
   nx (demo_shape 3 3) = 3 \<and> nv (final_nlp (demo_shape 3 3) 1 2 1) = 11 \<and>
   vind_x (final_nlp (demo_shape 3 3) 1 2 1) = [[0, 1, 2], [4, 5, 6], [8, 9, 10]] \<and>
   extraction (vind_x (final_nlp (demo_shape 3 3) 1 2 1)) (vind_u (final_nlp (demo_shape 3 3) 1 2 1))
     2 [10, 11, 12, 1, 20, 21, 22, 2, 30, 31, 32]
   = Inr ([10, 20, 30], [11, 21, 31], [1, 2]) \<and>
   script (demo_shape 1 1) 1 2 1 = Inr (final_nlp (demo_shape 1 1) 1 2 1) \<and>
   nx (demo_shape 1 1) = 1 \<and> nv (final_nlp (demo_shape 1 1) 1 2 1) = 5 \<and>
   extraction (vind_x (final_nlp (demo_shape 1 1) 1 2 1)) (vind_u (final_nlp (demo_shape 1 1) 1 2 1))
     2 [1, 2, 3, 4, 5]
   = Inl IndexError"
proof -
  let ?m = "demo_shape 3 3"
  let ?p = "final_nlp ?m 1 2 1"
  let ?v = "[10, 11, 12, 1, 20, 21, 22, 2, 30, 31, 32] :: vec"
  let ?m1 = "demo_shape 1 1"
  let ?p1 = "final_nlp ?m1 1 2 1"
  let ?v1 = "[1, 2, 3, 4, 5] :: vec"
  have ok: "script ?m 1 2 1 = Inr ?p" by (rule script_ok) simp_all
  have ok1: "script ?m1 1 2 1 = Inr ?p1" by (rule script_ok) simp_all
  have s: "nx ?m = 3" "nu ?m = 1" "nx ?m1 = 1" "nu ?m1 = 1" by (simp_all add: demo_shape_def)
  have n: "nv ?p = 11" "nv ?p1 = 5" unfolding nv_final s by simp_all
  have vx: "vind_x ?p = [[0, 1, 2], [4, 5, 6], [8, 9, 10]]"
    unfolding vind_x_final s by (simp add: upt_rec)
  have vu: "vind_u ?p = [[3], [7]]"
    unfolding vind_u_final s by (simp add: upt_rec)
  have len: "length ?v = nv ?p" unfolding n by simp
  have len1: "length ?v1 = nv ?p1" unfolding n by simp
  have two: "(0::int) \<le> 2" "(1::int) \<le> 2" by simp_all
  have three: "[0..<3] = [0, 1, 2::nat]" "[0..<2] = [0, 1::nat]" by (simp_all add: upt_rec)
  have "extraction (vind_x ?p) (vind_u ?p) 2 ?v
        = Inr (map (\<lambda>k. block ?v (vind_x ?p ! k) ! 0) [0..<nat 2 + 1],
               map (\<lambda>k. block ?v (vind_x ?p ! k) ! 1) [0..<nat 2 + 1],
               map (\<lambda>k. block ?v (vind_u ?p ! k) ! 0) [0..<nat 2])"
    using two(1) len by (rule extraction_ok) (simp_all add: s)
  then have e: "extraction (vind_x ?p) (vind_u ?p) 2 ?v = Inr ([10, 20, 30], [11, 21, 31], [1, 2])"
    unfolding vx vu by (simp add: three block_def)
  have c1: "nx ?m1 < 2 \<or> nu ?m1 < 1" unfolding s by simp
  have e1: "extraction (vind_x ?p1) (vind_u ?p1) 2 ?v1 = Inl IndexError"
    using two(2) len1 c1 by (rule extraction_fail)
  from ok s(1) n(1) vx e ok1 s(3) n(2) e1 show ?thesis by blast
qed

subsection \<open>Interval counts below one\<close>

text \<open>
  C9, as the code has it.  The script has no check of \<open>nk\<close> and no configuration error.
  For \<open>nk < 1\<close> it ends in a Python exception and returns no NLP.  For \<open>nk = 0\<close> this is
  the \<open>ZeroDivisionError\<close> of \<open>dt = tf/nk\<close>, the first statement that reads \<open>nk\<close>, before
  the integrator, the layout and the constraints are built.  For \<open>nk < 0\<close> (and
  \<open>nj \<noteq> 0\<close>) the step sizes are computed, and the script stops with the \<open>IndexError\<close> of
  \<open>xk[-1]\<close> in the layout.
\<close>

theorem nk_below_one_raises_python_error:
  assumes "nk < 1"
  shows "(\<exists>e. script m tf nk nj = Inl e) \<and>
         (nk = 0 \<longrightarrow> step_sizes tf nk nj = Inl ZeroDivisionError \<and>
                     script m tf nk nj = Inl ZeroDivisionError) \<and>
         (nk < 0 \<and> nj \<noteq> 0 \<longrightarrow>
            step_sizes tf nk nj = Inr (tf / of_int nk, tf / of_int nk / of_int nj) \<and>
            script m tf nk nj = Inl IndexError)"
proof -
  have zero: "step_sizes tf nk nj = Inl ZeroDivisionError \<and> script m tf nk nj = Inl ZeroDivisionError"
    if "nk = 0"
    using that by (simp add: script_def step_sizes_def)
  have neg: "step_sizes tf nk nj = Inr (tf / of_int nk, tf / of_int nk / of_int nj) \<and>
             script m tf nk nj = Inl IndexError" if "nk < 0" "nj \<noteq> 0"
  proof -
    have s: "step_sizes tf nk nj = Inr (tf / of_int nk, tf / of_int nk / of_int nj)"
      using that by (intro step_sizes_ok) simp_all
    have r: "py_range (nk + 1) = []" "py_range nk = []"
      using that(1) by (simp_all add: py_range_def)
    have "layout_all m [] [] nk = Inl IndexError"
      by (simp add: layout_all_def r py_index_empty)
    then show ?thesis
      using s by (simp add: script_def r Let_def)
  qed
  have "\<exists>e. script m tf nk nj = Inl e"
  proof (cases "nk = 0")
    case True
    with zero show ?thesis by blast
  next
    case False
    with assms have n: "nk < 0" by simp
    show ?thesis
    proof (cases "nj = 0")
      case True
      with n have "script m tf nk nj = Inl ZeroDivisionError"
        by (simp add: script_def step_sizes_def)
      then show ?thesis by blast
    next
      case False
      with neg n show ?thesis by blast
    qed
  qed
  with zero neg show ?thesis by blast
qed

theorem nk_below_one_raises_python_error_witness:
  "(0::int) < 1 \<and> step_sizes 150 0 10 = Inl ZeroDivisionError \<and>
   script demo 150 0 10 = Inl ZeroDivisionError"
  using nk_below_one_raises_python_error [of 0 demo 150 10] by simp

text \<open>
  The claim C9 as the specification states it, that every \<open>nk < 1\<close> is rejected before
  any numeric work, fails for \<open>nk = -1\<close>: the step sizes \<open>dt = -150\<close> and \<open>h = -15\<close> are
  computed, the layout loop runs (with no pass), and the exception is the \<open>IndexError\<close> of
  line 185.  For \<open>nk = 0\<close> the exception is a \<open>ZeroDivisionError\<close>.
\<close>

theorem negative_nk_not_rejected_up_front_counterexample:
  "step_sizes 150 (- 1) 10 = Inr (- 150, - 15) \<and>
   layout_loop demo [] [] (py_range (- 1)) layout_init = Inr layout_init \<and>
   script demo 150 (- 1) 10 = Inl IndexError \<and>
   script demo 150 0 10 = Inl ZeroDivisionError"
proof -
  have s: "step_sizes 150 (- 1) 10 = Inr (- 150, - 15)"
    by (simp add: step_sizes_def)
  have r: "py_range 0 = []" "py_range (- 1) = []"
    by (simp_all add: py_range_def)
  have "layout_all demo [] [] (- 1) = Inl IndexError"
    by (simp add: layout_all_def r py_index_empty)
  then have "script demo 150 (- 1) 10 = Inl IndexError"
    by (simp add: script_def s r Let_def)
  moreover have "script demo 150 0 10 = Inl ZeroDivisionError"
    by (simp add: script_def step_sizes_def)
  ultimately show ?thesis using s by (simp add: r)
qed

subsection \<open>State output and running cost\<close>

text \<open>
  C10.  The state output of the interval map does not depend on the running cost: two
  integrators built from the same \<open>f\<close> and different cost rates \<open>L\<close> and \<open>L'\<close> return
  the same \<open>x_end\<close> for every \<open>x_start\<close> and \<open>u\<close>; the quadrature never feeds back
  into the state.
\<close>

theorem state_output_independent_of_cost:
  "fst (integrator (ode_fcn f L) h nj x_start u) = fst (integrator (ode_fcn f L') h nj x_start u)
   \<and> fst (interval_map (m\<lparr>quad_L := L'\<rparr>) tf nk nj x_start u)
     = fst (interval_map m tf nk nj x_start u)"
  by (simp add: integrator_def interval_map_def rk4_loop_fst [of "(x_start, 0)" "(x_start, 0)"])

end
